theory Spec2Isabelle
  imports Main "HOL-Library.Word"
begin

section \<open>The image importer of the Directus engine (Runtime/Resource/Import/ImageImporter.cpp)\<close>

text \<open>
  The theory embeds \<^verbatim>\<open>ImageImporter::Load\<close> and the functions it calls. The FreeImage
  library, the file system, the texture deserialiser and the logger are collaborators whose
  code is not part of the importer: the library's computations are parameters of the model
  (record \<open>env\<close>), its bitmap handles live in an explicit store, and every externally
  visible effect (a write of \<open>loadState\<close>, a log line, a handle created or unloaded) is
  appended to a trace.
\<close>

subsection \<open>Machine types\<close>

type_synonym byte = "8 word"
type_synonym uint = "32 word"

text \<open>
  A C++ \<^verbatim>\<open>int\<close> is modelled as a mathematical integer together with the range check
  \<open>int_ok\<close>: signed overflow is undefined behaviour, which the functions below report as
  \<open>None\<close>.
\<close>

definition INT_MAX :: int where
  "INT_MAX = 2147483647"

definition int_ok :: "int \<Rightarrow> bool" where
  "int_ok v = (- INT_MAX - 1 \<le> v \<and> v \<le> INT_MAX)"

subsection \<open>Data\<close>

text \<open>
  \<^verbatim>\<open>LoadState\<close> is declared in Graphics/Texture.h; \<^verbatim>\<open>Load\<close> writes \<open>Loading\<close>,
  \<open>Completed\<close> and \<open>Failed\<close>, and \<open>NotStarted\<close> stands for the state before a load.
\<close>

datatype LoadState = NotStarted | Loading | Completed | Failed

datatype FREE_IMAGE_TYPE =
    FIT_UNKNOWN | FIT_BITMAP | FIT_UINT16 | FIT_INT16 | FIT_UINT32 | FIT_INT32
  | FIT_FLOAT | FIT_DOUBLE | FIT_COMPLEX | FIT_RGB16 | FIT_RGBA16 | FIT_RGBF | FIT_RGBAF

text \<open>
  A decoded bitmap as the importer sees it through FreeImage's accessors. \<open>bm_scanline y\<close>
  is the memory that starts at the first byte of row \<open>y\<close>: the importer reads it through
  a raw pointer, so a read past the row's pixels returns whatever follows them, and the
  memory is a total function of the byte offset.
\<close>

record FIBITMAP =
  bm_width :: uint
  bm_height :: uint
  bm_bpp :: uint
  bm_type :: FREE_IMAGE_TYPE
  bm_line :: uint
  bm_transparent :: bool
  bm_scanline :: "nat \<Rightarrow> nat \<Rightarrow> byte"

text \<open>
  \<^verbatim>\<open>TextureInfo\<close> (declared in Graphics/Texture.h): the fields the importer touches, each
  under its own name with the prefix \<open>tex_\<close>.
\<close>

record TextureInfo =
  tex_width :: uint
  tex_height :: uint
  tex_bpp :: uint
  tex_channels :: uint
  tex_isTransparent :: bool
  tex_isGrayscale :: bool
  tex_isUsingMipmaps :: bool
  tex_loadState :: LoadState
  tex_rgba :: "byte list"
  tex_rgba_mimaps :: "byte list list"

text \<open>The local struct \<^verbatim>\<open>scalingProcess\<close> of \<^verbatim>\<open>GenerateMipmapsFromFIBITMAP\<close>.\<close>

record scalingProcess =
  job_width :: int
  job_height :: int
  job_complete :: bool
  job_data :: "byte list"

definition new_scalingProcess :: "int \<Rightarrow> int \<Rightarrow> bool \<Rightarrow> scalingProcess" where
  "new_scalingProcess width height scaled =
     \<lparr>job_width = width, job_height = height, job_complete = scaled, job_data = []\<rparr>"

subsection \<open>The bitmap store and the trace of effects\<close>

type_synonym handle = nat

definition NULL :: handle where
  "NULL = 0"

datatype LogLevel = Info | Warning

datatype event =
    StateWrite LoadState
  | Logged LogLevel string
  | PathChecked
  | EngineTextureRead
  | FormatProbed
  | Created handle
  | Unloaded handle

record machine =
  heap :: "handle \<Rightarrow> FIBITMAP option"
  next_handle :: handle
  trace :: "event list"

text \<open>What a handle points to: nothing for the null pointer and for a released bitmap.\<close>

definition deref :: "machine \<Rightarrow> handle \<Rightarrow> FIBITMAP option" where
  "deref m h = (if h = NULL then None else heap m h)"

definition emit :: "event \<Rightarrow> machine \<Rightarrow> machine" where
  "emit ev m = m\<lparr>trace := trace m @ [ev]\<rparr>"

definition alloc :: "FIBITMAP \<Rightarrow> machine \<Rightarrow> handle \<times> machine" where
  "alloc b m =
     (let h = Suc (next_handle m)
      in (h, emit (Created h) (m\<lparr>heap := (heap m)(h \<mapsto> b), next_handle := h\<rparr>)))"

definition LOG_WARNING :: "string \<Rightarrow> machine \<Rightarrow> machine" where
  "LOG_WARNING text m = emit (Logged Warning text) m"

definition LOG_INFO :: "string \<Rightarrow> machine \<Rightarrow> machine" where
  "LOG_INFO text m = emit (Logged Info text) m"

subsection \<open>The collaborators\<close>

text \<open>
  What the importer calls but does not define. An image format is FreeImage's
  \<^verbatim>\<open>FREE_IMAGE_FORMAT\<close>, an integer enumeration whose \<^verbatim>\<open>FIF_UNKNOWN\<close> is \<open>-1\<close>.
  \<open>Workers\<close> is the Threading subsystem: \<open>Workers e n queue\<close> names the tasks, out
  of the queue of submitted tasks that have not run yet, which the worker threads run
  at the \<open>n\<close>-th point where the importing thread lets them (after each
  \<^verbatim>\<open>AddTask\<close> and before each pass of the polling loop). A task is named by the
  index of its job. Nothing is assumed of \<open>Workers\<close>: it may run the tasks in any
  order, late, or never.
\<close>

definition FIF_UNKNOWN :: int where
  "FIF_UNKNOWN = - 1"

record env =
  NOT_ASSIGNED :: string
  FileExists :: "string \<Rightarrow> bool"
  IsEngineTextureFile :: "string \<Rightarrow> bool"
  Deserialize :: "string \<Rightarrow> TextureInfo \<Rightarrow> bool \<times> TextureInfo"
  GetFileType :: "string \<Rightarrow> int"
  GetFIFFromFilename :: "string \<Rightarrow> int"
  FIFSupportsReading :: "int \<Rightarrow> bool"
  Decode :: "int \<Rightarrow> string \<Rightarrow> FIBITMAP option"
  Flip :: "FIBITMAP \<Rightarrow> FIBITMAP"
  Rescale :: "FIBITMAP \<Rightarrow> int \<Rightarrow> int \<Rightarrow> FIBITMAP option"
  ConvertTo32 :: "FIBITMAP \<Rightarrow> FIBITMAP option"
  Workers :: "nat \<Rightarrow> nat list \<Rightarrow> nat list"

text \<open>
  FreeImage's accessors take a bitmap pointer and answer for the null pointer too
  (0, \<^verbatim>\<open>FALSE\<close>, \<^verbatim>\<open>FIT_UNKNOWN\<close>); the argument here is what the pointer points to.
\<close>

definition FreeImage_GetWidth :: "FIBITMAP option \<Rightarrow> uint" where
  "FreeImage_GetWidth dib = (case dib of None \<Rightarrow> 0 | Some b \<Rightarrow> bm_width b)"

definition FreeImage_GetHeight :: "FIBITMAP option \<Rightarrow> uint" where
  "FreeImage_GetHeight dib = (case dib of None \<Rightarrow> 0 | Some b \<Rightarrow> bm_height b)"

definition FreeImage_GetBPP :: "FIBITMAP option \<Rightarrow> uint" where
  "FreeImage_GetBPP dib = (case dib of None \<Rightarrow> 0 | Some b \<Rightarrow> bm_bpp b)"

definition FreeImage_GetLine :: "FIBITMAP option \<Rightarrow> uint" where
  "FreeImage_GetLine dib = (case dib of None \<Rightarrow> 0 | Some b \<Rightarrow> bm_line b)"

definition FreeImage_GetImageType :: "FIBITMAP option \<Rightarrow> FREE_IMAGE_TYPE" where
  "FreeImage_GetImageType dib = (case dib of None \<Rightarrow> FIT_UNKNOWN | Some b \<Rightarrow> bm_type b)"

definition FreeImage_IsTransparent :: "FIBITMAP option \<Rightarrow> bool" where
  "FreeImage_IsTransparent dib = (case dib of None \<Rightarrow> False | Some b \<Rightarrow> bm_transparent b)"

definition FreeImage_GetScanLine :: "FIBITMAP option \<Rightarrow> nat \<Rightarrow> nat \<Rightarrow> byte" where
  "FreeImage_GetScanLine dib y = (case dib of None \<Rightarrow> (\<lambda>_. 0) | Some b \<Rightarrow> bm_scanline b y)"

text \<open>
  The calls that create, change or release a bitmap. Each returns \<open>NULL\<close> where the
  library does (a failed decode, rescale or conversion, or a null argument).
\<close>

definition FreeImage_Load :: "env \<Rightarrow> int \<Rightarrow> string \<Rightarrow> machine \<Rightarrow> handle \<times> machine" where
  "FreeImage_Load e format filePath m =
     (case Decode e format filePath of None \<Rightarrow> (NULL, m) | Some b \<Rightarrow> alloc b m)"

definition FreeImage_FlipVertical :: "env \<Rightarrow> handle \<Rightarrow> machine \<Rightarrow> machine" where
  "FreeImage_FlipVertical e h m =
     (case deref m h of None \<Rightarrow> m | Some b \<Rightarrow> m\<lparr>heap := (heap m)(h \<mapsto> Flip e b)\<rparr>)"

definition FreeImage_Rescale ::
  "env \<Rightarrow> handle \<Rightarrow> int \<Rightarrow> int \<Rightarrow> machine \<Rightarrow> handle \<times> machine" where
  "FreeImage_Rescale e h dst_width dst_height m =
     (case deref m h of
        None \<Rightarrow> (NULL, m)
      | Some b \<Rightarrow>
          (case Rescale e b dst_width dst_height of
             None \<Rightarrow> (NULL, m)
           | Some b' \<Rightarrow> alloc b' m))"

definition FreeImage_ConvertTo32Bits :: "env \<Rightarrow> handle \<Rightarrow> machine \<Rightarrow> handle \<times> machine" where
  "FreeImage_ConvertTo32Bits e h m =
     (case deref m h of
        None \<Rightarrow> (NULL, m)
      | Some b \<Rightarrow> (case ConvertTo32 e b of None \<Rightarrow> (NULL, m) | Some b' \<Rightarrow> alloc b' m))"

definition FreeImage_Unload :: "handle \<Rightarrow> machine \<Rightarrow> machine" where
  "FreeImage_Unload h m =
     (if h = NULL then m else emit (Unloaded h) (m\<lparr>heap := (heap m)(h := None)\<rparr>))"

text \<open>
  The byte offsets of the colour components inside a 32-bit pixel (FreeImage.h, the
  little-endian layout blue, green, red, alpha).
\<close>

definition FI_RGBA_RED :: nat where
  "FI_RGBA_RED = 2"

definition FI_RGBA_GREEN :: nat where
  "FI_RGBA_GREEN = 1"

definition FI_RGBA_BLUE :: nat where
  "FI_RGBA_BLUE = 0"

definition FI_RGBA_ALPHA :: nat where
  "FI_RGBA_ALPHA = 3"

subsection \<open>\<^verbatim>\<open>ComputeChannelCount\<close> (lines 195-211)\<close>

definition ComputeChannelCount :: "FIBITMAP option \<Rightarrow> uint \<Rightarrow> uint" where
  "ComputeChannelCount fibtimap bpp =
     (let imageType = FreeImage_GetImageType fibtimap
      in if imageType \<noteq> FIT_BITMAP then 0
         else if bpp = 8 then 1
         else if bpp = 24 then 3
         else if bpp = 32 then 4
         else 0)"

subsection \<open>\<^verbatim>\<open>FIBTIMAPToRGBA\<close> (lines 213-239)\<close>

text \<open>
  The inner loop over \<open>x\<close>: \<open>bits\<close> is the scanline's memory and \<open>off\<close> the pointer's
  distance from its start (\<^verbatim>\<open>bits += bytespp\<close>). The counters are unsigned and stay
  below their bound, so they never wrap and are natural numbers here.
\<close>

function rgba_cols :: "(nat \<Rightarrow> byte) \<Rightarrow> nat \<Rightarrow> nat \<Rightarrow> nat \<Rightarrow> nat \<Rightarrow> byte list \<Rightarrow> byte list" where
  "rgba_cols bits width bytespp off x rgba =
     (if x < width
      then rgba_cols bits width bytespp (off + bytespp) (x + 1)
             (rgba @ [bits (off + FI_RGBA_RED), bits (off + FI_RGBA_GREEN),
                      bits (off + FI_RGBA_BLUE), bits (off + FI_RGBA_ALPHA)])
      else rgba)"
  by pat_completeness auto
termination
  by (relation "measure (\<lambda>(bits, width, bytespp, off, x, rgba). width - x)") auto

function rgba_rows ::
  "FIBITMAP option \<Rightarrow> nat \<Rightarrow> nat \<Rightarrow> nat \<Rightarrow> nat \<Rightarrow> byte list \<Rightarrow> byte list" where
  "rgba_rows fibtimap width height bytespp y rgba =
     (if y < height
      then rgba_rows fibtimap width height bytespp (y + 1)
             (rgba_cols (FreeImage_GetScanLine fibtimap y) width bytespp 0 0 rgba)
      else rgba)"
  by pat_completeness auto
termination
  by (relation "measure (\<lambda>(fibtimap, width, height, bytespp, y, rgba). height - y)") auto

text \<open>
  \<^verbatim>\<open>width\<close> and \<open>height\<close> are stored in \<^verbatim>\<open>int\<close> variables and converted back to unsigned
  wherever they are used (the division and both loop tests), which returns the accessor's
  value; \<open>-1\<close> in an unsigned context is \<open>0xFFFFFFFF\<close>.
\<close>

definition FIBTIMAPToRGBA :: "FIBITMAP option \<Rightarrow> byte list \<Rightarrow> bool \<times> byte list" where
  "FIBTIMAPToRGBA fibtimap rgba =
     (let width = FreeImage_GetWidth fibtimap;
          height = FreeImage_GetHeight fibtimap;
          bytespp = (if width \<noteq> 0 then FreeImage_GetLine fibtimap div width else - 1)
      in if bytespp = - 1 then (False, rgba)
         else (True, rgba_rows fibtimap (unat width) (unat height) (unat bytespp) 0 rgba))"

subsection \<open>\<^verbatim>\<open>GrayscaleCheck\<close> (lines 323-345)\<close>

text \<open>
  \<^verbatim>\<open>dataRGBA[k]\<close> with an \<^verbatim>\<open>int\<close> index: undefined when the index expression overflows
  or lies outside the vector. Inside the loops \<open>i\<close>, \<open>j\<close> and \<open>width\<close> are not
  negative, so no intermediate value of the index expression exceeds the index itself and
  the range check on the index covers them.
\<close>

definition vec_at :: "byte list \<Rightarrow> int \<Rightarrow> byte option" where
  "vec_at dataRGBA k =
     (if int_ok k \<and> 0 \<le> k \<and> nat k < length dataRGBA then Some (dataRGBA ! nat k) else None)"

definition pixel_is_gray :: "byte list \<Rightarrow> int \<Rightarrow> int \<Rightarrow> int \<Rightarrow> bool option" where
  "pixel_is_gray dataRGBA width i j =
     (let channels = 4 in
      case vec_at dataRGBA ((i * width + j) * channels + 0) of
        None \<Rightarrow> None
      | Some red \<Rightarrow>
          (case vec_at dataRGBA ((i * width + j) * channels + 1) of
             None \<Rightarrow> None
           | Some green \<Rightarrow>
               (case vec_at dataRGBA ((i * width + j) * channels + 2) of
                  None \<Rightarrow> None
                | Some blue \<Rightarrow> Some (red = green \<and> red = blue))))"

function gray_cols :: "byte list \<Rightarrow> int \<Rightarrow> int \<Rightarrow> int \<Rightarrow> int \<Rightarrow> int option" where
  "gray_cols dataRGBA width i j grayPixels =
     (if j < width
      then (case pixel_is_gray dataRGBA width i j of
              None \<Rightarrow> None
            | Some gray \<Rightarrow>
                gray_cols dataRGBA width i (j + 1) (if gray then grayPixels + 1 else grayPixels))
      else Some grayPixels)"
  by pat_completeness auto
termination
  by (relation "measure (\<lambda>(dataRGBA, width, i, j, grayPixels). nat (width - j))") auto

function gray_rows :: "byte list \<Rightarrow> int \<Rightarrow> int \<Rightarrow> int \<Rightarrow> int \<Rightarrow> int option" where
  "gray_rows dataRGBA width height i grayPixels =
     (if i < height
      then (case gray_cols dataRGBA width i 0 grayPixels of
              None \<Rightarrow> None
            | Some grayPixels' \<Rightarrow> gray_rows dataRGBA width height (i + 1) grayPixels')
      else Some grayPixels)"
  by pat_completeness auto
termination
  by (relation "measure (\<lambda>(dataRGBA, width, height, i, grayPixels). nat (height - i))") auto

definition GrayscaleCheck :: "byte list \<Rightarrow> int \<Rightarrow> int \<Rightarrow> bool option" where
  "GrayscaleCheck dataRGBA width height =
     (if \<not> int_ok (width * height) then None
      else
        (let totalPixels = width * height
         in case gray_rows dataRGBA width height 0 0 of
              None \<Rightarrow> None
            | Some grayPixels \<Rightarrow> Some (grayPixels = totalPixels)))"

subsection \<open>The mip chain of \<^verbatim>\<open>GenerateMipmapsFromFIBITMAP\<close> (lines 263-270)\<close>

text \<open>
  The loop that fills \<^verbatim>\<open>scalingJobs\<close>. Both operands of the divisions are greater than 1
  inside the loop, where C++'s truncating division and \<open>div\<close> agree.
\<close>

function scalingJobs_loop :: "int \<Rightarrow> int \<Rightarrow> scalingProcess list \<Rightarrow> scalingProcess list" where
  "scalingJobs_loop width height scalingJobs =
     (if width > 1 \<and> height > 1
      then (let width' = max (width div 2) 1;
                height' = max (height div 2) 1
            in scalingJobs_loop width' height'
                 (scalingJobs @ [new_scalingProcess width' height' False]))
      else scalingJobs)"
  by pat_completeness auto
termination
  by (relation "measure (\<lambda>(width, height, scalingJobs). nat width)") auto

text \<open>The dimensions of the whole chain: the base level, then one level per job.\<close>

definition mip_dims :: "int \<Rightarrow> int \<Rightarrow> (int \<times> int) list" where
  "mip_dims width height =
     (width, height) # map (\<lambda>job. (job_width job, job_height job)) (scalingJobs_loop width height [])"

subsection \<open>\<^verbatim>\<open>ValidateFilePath\<close> and \<^verbatim>\<open>LoadEngineTexture\<close> (lines 167-193)\<close>

definition dquote :: string where
  "dquote = [CHR 0x22]"

definition ValidateFilePath :: "env \<Rightarrow> string \<Rightarrow> machine \<Rightarrow> bool \<times> machine" where
  "ValidateFilePath e filePath m =
     (if filePath = [] \<or> filePath = NOT_ASSIGNED e
      then (False,
            LOG_WARNING ''ImageImporter: Can't load image. No file path has been provided.'' m)
      else
        (let m1 = emit PathChecked m
         in if \<not> FileExists e filePath
            then (False,
                  LOG_WARNING (''ImageImporter: Cant' load image. File path '' @ dquote @
                               filePath @ dquote @ '' is invalid.'') m1)
            else (True, m1)))"

definition LoadEngineTexture ::
  "env \<Rightarrow> string \<Rightarrow> TextureInfo \<Rightarrow> machine \<Rightarrow> bool \<times> TextureInfo \<times> machine" where
  "LoadEngineTexture e filePath texInfo m =
     (let (ok, texInfo1) = Deserialize e filePath texInfo;
          m1 = emit EngineTextureRead m
      in if \<not> ok
         then (False, texInfo1, LOG_WARNING ''ImageImporter: Failed to load engine texture.'' m1)
         else (True, texInfo1, m1))"

subsection \<open>\<^verbatim>\<open>RescaleFIBITMAP\<close> (lines 309-321)\<close>

definition RescaleFIBITMAP ::
  "env \<Rightarrow> handle \<Rightarrow> int \<Rightarrow> int \<Rightarrow> byte list \<Rightarrow> machine \<Rightarrow> bool \<times> byte list \<times> machine" where
  "RescaleFIBITMAP e fibtimap width height rgba m =
     (let (scaled, m1) = FreeImage_Rescale e fibtimap width height m;
          (result, rgba1) = FIBTIMAPToRGBA (deref m1 scaled) rgba;
          m2 = FreeImage_Unload scaled m1
      in (result, rgba1, m2))"

subsection \<open>\<^verbatim>\<open>GenerateMipmapsFromFIBITMAP\<close> (lines 241-307)\<close>

text \<open>\<^verbatim>\<open>std::to_string\<close> on an \<^verbatim>\<open>int\<close>: the decimal digits, with a minus sign when negative.\<close>

function to_string_nat :: "nat \<Rightarrow> string" where
  "to_string_nat n =
     (if n < 10 then [''0123456789'' ! n]
      else to_string_nat (n div 10) @ [''0123456789'' ! (n mod 10)])"
  by pat_completeness auto
termination
  by (relation "measure (\<lambda>n. n)") auto

definition to_string :: "int \<Rightarrow> string" where
  "to_string v = (if v < 0 then CHR ''-'' # to_string_nat (nat (- v)) else to_string_nat (nat v))"

text \<open>The line logged for a level that could not be created (lines 281-282).\<close>

definition mip_failed_text :: "int \<Rightarrow> int \<Rightarrow> string" where
  "mip_failed_text width height =
     (let mipSize = ''('' @ to_string width @ ''x'' @ to_string height @ '')''
      in ''ImageImporter: Failed to create mip level '' @ mipSize @ ''.'')"

text \<open>
  The task submitted for one job (lines 277-285). A task runs as one step: the tasks
  write to disjoint jobs and only read the shared bitmap, so what a task leaves in its
  job does not depend on how the tasks interleave; the order of the log lines and of the
  handles does, and follows the order in which \<open>Workers\<close> runs the tasks.
\<close>

definition mip_task :: "env \<Rightarrow> handle \<Rightarrow> scalingProcess \<Rightarrow> machine \<Rightarrow> scalingProcess \<times> machine" where
  "mip_task e originalFIBITMAP job m =
     (let (ok, data, m1) =
            RescaleFIBITMAP e originalFIBITMAP (job_width job) (job_height job) (job_data job) m;
          m2 = (if \<not> ok
                then LOG_INFO (mip_failed_text (job_width job) (job_height job)) m1
                else m1)
      in (job\<lparr>job_data := data, job_complete := True\<rparr>, m2))"

text \<open>A worker thread runs the task of job \<open>i\<close>, which holds a reference to that job.\<close>

definition run_task ::
  "env \<Rightarrow> handle \<Rightarrow> nat \<Rightarrow> scalingProcess list \<times> machine \<Rightarrow> scalingProcess list \<times> machine" where
  "run_task e originalFIBITMAP i jm =
     (case jm of
        (scalingJobs, m) \<Rightarrow>
          (if i < length scalingJobs
           then (let (job1, m1) = mip_task e originalFIBITMAP (scalingJobs ! i) m
                 in (scalingJobs[i := job1], m1))
           else (scalingJobs, m)))"

text \<open>
  One point where the worker threads run: the tasks \<open>Workers\<close> names, each once and
  only if it is in the queue, leave the queue and run. The state is the queue, the jobs
  and the store.
\<close>

definition workers_chosen :: "env \<Rightarrow> nat \<Rightarrow> nat list \<Rightarrow> nat list" where
  "workers_chosen e n queue = remdups (filter (\<lambda>i. i \<in> set queue) (Workers e n queue))"

definition queue_rest :: "env \<Rightarrow> nat \<Rightarrow> nat list \<Rightarrow> nat list" where
  "queue_rest e n queue = filter (\<lambda>i. i \<notin> set (workers_chosen e n queue)) queue"

definition workers_step ::
  "env \<Rightarrow> handle \<Rightarrow> nat \<Rightarrow> nat list \<times> scalingProcess list \<times> machine \<Rightarrow>
   nat list \<times> scalingProcess list \<times> machine" where
  "workers_step e originalFIBITMAP n st =
     (case st of
        (queue, scalingJobs, m) \<Rightarrow>
          (let (scalingJobs1, m1) =
                 fold (run_task e originalFIBITMAP) (workers_chosen e n queue) (scalingJobs, m)
           in (queue_rest e n queue, scalingJobs1, m1)))"

text \<open>
  The loop of lines 275-286: \<^verbatim>\<open>AddTask\<close> puts the task of each job into the queue, in
  the order of the jobs, and the worker threads may run between two submissions.
\<close>

fun submit_tasks ::
  "env \<Rightarrow> handle \<Rightarrow> nat list \<Rightarrow> nat \<Rightarrow> nat list \<times> scalingProcess list \<times> machine \<Rightarrow>
   nat list \<times> scalingProcess list \<times> machine" where
  "submit_tasks e originalFIBITMAP [] n st = st"
| "submit_tasks e originalFIBITMAP (i # rest) n st =
     (case st of
        (queue, scalingJobs, m) \<Rightarrow>
          submit_tasks e originalFIBITMAP rest (Suc n)
            (workers_step e originalFIBITMAP n (queue @ [i], scalingJobs, m)))"

text \<open>
  The polling loop of lines 289-300: each pass reads the \<^verbatim>\<open>complete\<close> flag of every
  job, and the loop ends with the first pass that finds them all set. The worker threads
  run before each pass. The flags are plain \<^verbatim>\<open>bool\<close>s; a pass is taken to read what the
  tasks have written. The loop does not return (\<open>None\<close>) when the workers never finish.
\<close>

definition all_complete :: "scalingProcess list \<Rightarrow> bool" where
  "all_complete scalingJobs =
     fold (\<lambda>proccess ready. if \<not> job_complete proccess then False else ready) scalingJobs True"

partial_function (option) wait_until_ready ::
  "env \<Rightarrow> handle \<Rightarrow> nat \<Rightarrow> nat list \<Rightarrow> scalingProcess list \<Rightarrow> machine \<Rightarrow>
   (scalingProcess list \<times> machine) option" where
  "wait_until_ready e originalFIBITMAP n queue scalingJobs m =
     (case workers_step e originalFIBITMAP n (queue, scalingJobs, m) of
        (queue1, scalingJobs1, m1) \<Rightarrow>
          if all_complete scalingJobs1 then Some (scalingJobs1, m1)
          else wait_until_ready e originalFIBITMAP (Suc n) queue1 scalingJobs1 m1)"

text \<open>
  The base level is moved into the chain, which leaves \<^verbatim>\<open>texInfo.rgba\<close> empty; the jobs'
  buffers are appended in the order of the jobs.
\<close>

definition GenerateMipmapsFromFIBITMAP ::
  "env \<Rightarrow> handle \<Rightarrow> TextureInfo \<Rightarrow> machine \<Rightarrow> (TextureInfo \<times> machine) option" where
  "GenerateMipmapsFromFIBITMAP e originalFIBITMAP texInfo m =
     (let texInfo1 = texInfo\<lparr>tex_rgba_mimaps := tex_rgba_mimaps texInfo @ [tex_rgba texInfo],
                             tex_rgba := []\<rparr>;
          width = sint (tex_width texInfo1);
          height = sint (tex_height texInfo1);
          scalingJobs = scalingJobs_loop width height [];
          (queue, scalingJobs1, m1) =
            submit_tasks e originalFIBITMAP [0..<length scalingJobs] 0 ([], scalingJobs, m)
      in case wait_until_ready e originalFIBITMAP (length scalingJobs) queue scalingJobs1 m1 of
           None \<Rightarrow> None
         | Some (scalingJobs2, m2) \<Rightarrow>
             Some (texInfo1\<lparr>tex_rgba_mimaps :=
                              tex_rgba_mimaps texInfo1 @ map job_data scalingJobs2\<rparr>, m2))"

text \<open>
  The queue alone, which depends on \<open>Workers\<close> only: after the submissions, and after
  \<open>k\<close> further passes of the polling loop. \<open>workers_finish e jobs k\<close>: in a load with
  \<open>jobs\<close> jobs the worker threads have run every task by the \<open>k\<close>-th of these passes.
\<close>

fun queue_submit :: "env \<Rightarrow> nat list \<Rightarrow> nat \<Rightarrow> nat list \<Rightarrow> nat list" where
  "queue_submit e [] n queue = queue"
| "queue_submit e (i # rest) n queue = queue_submit e rest (Suc n) (queue_rest e n (queue @ [i]))"



subsection \<open>\<^verbatim>\<open>Load\<close> (lines 59-165)\<close>

text \<open>Lines 84-110: the format of the file, or \<open>None\<close> where \<^verbatim>\<open>Load\<close> gives up.\<close>

definition Load_format :: "env \<Rightarrow> string \<Rightarrow> machine \<Rightarrow> int option \<times> machine" where
  "Load_format e filePath m =
     (let format = GetFileType e filePath;
          m1 = emit FormatProbed m
      in if format = FIF_UNKNOWN
         then
           (let m2 = LOG_WARNING (''ImageImporter: Failed to determine image format for '' @
                        dquote @ filePath @ dquote @
                        '', attempting to detect it from the file's extension...'') m1;
                format1 = GetFIFFromFilename e filePath
            in if \<not> FIFSupportsReading e format1
               then (None, LOG_WARNING ''ImageImporter: Failed to detect the image format.'' m2)
               else
                 (let m3 = LOG_WARNING
                        ''ImageImporter: The image format has been detected succesfully.'' m2
                  in if format1 = - 1 \<or> format1 = FIF_UNKNOWN then (None, m3)
                     else (Some format1, m3)))
         else if format = - 1 \<or> format = FIF_UNKNOWN then (None, m1)
         else (Some format, m1))"

text \<open>
  Lines 113-127: decode, flip, rescale and convert. The result holds the three handles,
  the flag \<open>scale\<close>, the texture record and the store.
\<close>

definition Load_bitmaps ::
  "env \<Rightarrow> string \<Rightarrow> int \<Rightarrow> TextureInfo \<Rightarrow> machine \<Rightarrow>
   handle \<times> bool \<times> handle \<times> handle \<times> TextureInfo \<times> machine" where
  "Load_bitmaps e filePath format texInfo m =
     (let (bitmapOriginal, m1) = FreeImage_Load e format filePath m;
          m2 = FreeImage_FlipVertical e bitmapOriginal m1;
          userDefineDimensions = (tex_width texInfo \<noteq> 0 \<and> tex_height texInfo \<noteq> 0);
          dimensionMismatch =
            (FreeImage_GetWidth (deref m2 bitmapOriginal) \<noteq> tex_width texInfo \<and>
             FreeImage_GetHeight (deref m2 bitmapOriginal) \<noteq> tex_height texInfo);
          scale = (userDefineDimensions \<and> dimensionMismatch);
          (bitmapScaled, m3) =
            (if scale
             then FreeImage_Rescale e bitmapOriginal
                    (sint (tex_width texInfo)) (sint (tex_height texInfo)) m2
             else (bitmapOriginal, m2));
          texInfo1 = texInfo\<lparr>tex_bpp := FreeImage_GetBPP (deref m3 bitmapOriginal)\<rparr>;
          (bitmap32, m4) =
            (if tex_bpp texInfo1 \<noteq> 32 then FreeImage_ConvertTo32Bits e bitmapScaled m3
             else (bitmapScaled, m3));
          texInfo2 = texInfo1\<lparr>tex_bpp := 32\<rparr>
      in (bitmapOriginal, scale, bitmapScaled, bitmap32, texInfo2, m4))"

text \<open>
  Lines 113-164: the bitmaps above, then extract, classify, build the mip chain and
  release the bitmaps. The result is \<open>None\<close> where the C++ has no defined result
  (\<^verbatim>\<open>GrayscaleCheck\<close>) or does not return (the polling loop, when the workers never
  finish).
\<close>

definition Load_image ::
  "env \<Rightarrow> string \<Rightarrow> int \<Rightarrow> TextureInfo \<Rightarrow> machine \<Rightarrow> (bool \<times> TextureInfo \<times> machine) option" where
  "Load_image e filePath format texInfo m =
     (let (bitmapOriginal, scale, bitmapScaled, bitmap32, texInfo2, m4) =
            Load_bitmaps e filePath format texInfo m;
          texInfo3 = texInfo2\<lparr>tex_isTransparent := FreeImage_IsTransparent (deref m4 bitmap32)\<rparr>;
          texInfo4 = texInfo3\<lparr>tex_width := FreeImage_GetWidth (deref m4 bitmap32)\<rparr>;
          texInfo5 = texInfo4\<lparr>tex_height := FreeImage_GetHeight (deref m4 bitmap32)\<rparr>;
          texInfo6 = texInfo5\<lparr>tex_channels :=
                       ComputeChannelCount (deref m4 bitmap32) (tex_bpp texInfo5)\<rparr>;
          texInfo7 = texInfo6\<lparr>tex_rgba :=
                       snd (FIBTIMAPToRGBA (deref m4 bitmap32) (tex_rgba texInfo6))\<rparr>
      in case GrayscaleCheck (tex_rgba texInfo7)
                (sint (tex_width texInfo7)) (sint (tex_height texInfo7)) of
           None \<Rightarrow> None
         | Some gray \<Rightarrow>
             (let texInfo8 = texInfo7\<lparr>tex_isGrayscale := gray\<rparr>
              in case (if tex_isUsingMipmaps texInfo8
                       then GenerateMipmapsFromFIBITMAP e bitmap32 texInfo8 m4
                       else Some (texInfo8, m4)) of
                   None \<Rightarrow> None
                 | Some (texInfo9, m5) \<Rightarrow>
                     (let m6 = FreeImage_Unload bitmap32 m5;
                          m7 = (if tex_bpp texInfo9 \<noteq> 32
                                then FreeImage_Unload bitmapScaled m6 else m6);
                          m8 = (if scale then FreeImage_Unload bitmapOriginal m7 else m7)
                      in Some (True, texInfo9\<lparr>tex_loadState := Completed\<rparr>,
                               emit (StateWrite Completed) m8))))"

definition Load ::
  "env \<Rightarrow> string \<Rightarrow> TextureInfo \<Rightarrow> machine \<Rightarrow> (bool \<times> TextureInfo \<times> machine) option" where
  "Load e filePath texInfo0 m0 =
     (let texInfo = texInfo0\<lparr>tex_loadState := Loading\<rparr>;
          m = emit (StateWrite Loading) m0;
          (valid, m1) = ValidateFilePath e filePath m
      in if \<not> valid
         then Some (False, texInfo\<lparr>tex_loadState := Failed\<rparr>, emit (StateWrite Failed) m1)
         else if IsEngineTextureFile e filePath
         then
           (let (ok, texInfo1, m2) = LoadEngineTexture e filePath texInfo m1
            in if \<not> ok
               then Some (False, texInfo1\<lparr>tex_loadState := Failed\<rparr>,
                          emit (StateWrite Failed) m2)
               else Some (True, texInfo1\<lparr>tex_loadState := Completed\<rparr>,
                          emit (StateWrite Completed) m2))
         else
           (let (format, m2) = Load_format e filePath m1
            in case format of
                 None \<Rightarrow>
                   Some (False, texInfo\<lparr>tex_loadState := Failed\<rparr>, emit (StateWrite Failed) m2)
               | Some fif \<Rightarrow> Load_image e filePath fif texInfo m2))"

text \<open>The store before anything was loaded.\<close>

definition machine0 :: machine where
  "machine0 = \<lparr>heap = (\<lambda>_. None), next_handle = NULL, trace = []\<rparr>"

subsection \<open>Where \<^verbatim>\<open>Load\<close> decodes\<close>

text \<open>
  The format \<^verbatim>\<open>Load\<close> reaches line 113 with: the path passes \<^verbatim>\<open>ValidateFilePath\<close>,
  is not an engine texture, and lines 84-110 find a format. \<open>decode_entry\<close> is the store
  at that point.
\<close>

definition decode_format :: "env \<Rightarrow> string \<Rightarrow> int option" where
  "decode_format e filePath =
     (if fst (ValidateFilePath e filePath machine0) \<and> \<not> IsEngineTextureFile e filePath
      then fst (Load_format e filePath machine0) else None)"

definition decode_entry :: "env \<Rightarrow> string \<Rightarrow> machine \<Rightarrow> machine" where
  "decode_entry e filePath m =
     snd (Load_format e filePath
            (snd (ValidateFilePath e filePath (emit (StateWrite Loading) m))))"

section \<open>Vocabulary of the proofs\<close>

text \<open>The writes of \<open>loadState\<close> in a trace, in order.\<close>

definition state_writes :: "event list \<Rightarrow> LoadState list" where
  "state_writes evs = concat (map (\<lambda>ev. case ev of StateWrite s \<Rightarrow> [s] | _ \<Rightarrow> []) evs)"

text \<open>
  \<open>quiet\<close>: the trace only grew, by events that are not writes of \<open>loadState\<close>.
  \<open>grows\<close>: moreover no handle was taken back. \<open>stable\<close>: moreover every bitmap
  that existed is unchanged.
\<close>

definition quiet :: "machine \<Rightarrow> machine \<Rightarrow> bool" where
  "quiet m m' = (\<exists>evs. trace m' = trace m @ evs \<and> state_writes evs = [])"

definition grows :: "machine \<Rightarrow> machine \<Rightarrow> bool" where
  "grows m m' = (quiet m m' \<and> next_handle m \<le> next_handle m')"

definition stable :: "machine \<Rightarrow> machine \<Rightarrow> bool" where
  "stable m m' = (quiet m m' \<and> next_handle m \<le> next_handle m' \<and>
                  (\<forall>h. h \<le> next_handle m \<longrightarrow> heap m' h = heap m h))"

text \<open>
  What \<^verbatim>\<open>RescaleFIBITMAP\<close> returns, as a function of the bitmap behind its handle.
\<close>

definition rescaled :: "env \<Rightarrow> FIBITMAP option \<Rightarrow> int \<Rightarrow> int \<Rightarrow> byte list \<Rightarrow> bool \<times> byte list" where
  "rescaled e dib width height rgba =
     (case dib of
        None \<Rightarrow> (False, rgba)
      | Some b \<Rightarrow>
          (case Rescale e b width height of
             None \<Rightarrow> (False, rgba)
           | Some b' \<Rightarrow> FIBTIMAPToRGBA (Some b') rgba))"

text \<open>
  A job whose task has run, and the state of a mip generation that was started in store
  \<open>m0\<close> with the jobs \<open>jobs0\<close>, after \<open>sub\<close> submissions: the tasks in the queue
  have not touched their jobs, every other submitted task has run once, on the bitmap that
  was behind the handle at the start, and has logged its failure if it failed.
\<close>

definition done_job :: "env \<Rightarrow> FIBITMAP option \<Rightarrow> scalingProcess \<Rightarrow> scalingProcess" where
  "done_job e dib job =
     job\<lparr>job_data := snd (rescaled e dib (job_width job) (job_height job) (job_data job)),
         job_complete := True\<rparr>"

definition mip_inv ::
  "env \<Rightarrow> handle \<Rightarrow> machine \<Rightarrow> scalingProcess list \<Rightarrow> nat \<Rightarrow>
   nat list \<Rightarrow> scalingProcess list \<Rightarrow> machine \<Rightarrow> bool" where
  "mip_inv e h m0 jobs0 sub queue jobs m =
     (h \<le> next_handle m0 \<and> stable m0 m \<and> distinct queue \<and> (\<forall>i \<in> set queue. i < sub) \<and>
      sub \<le> length jobs0 \<and> length jobs = length jobs0 \<and>
      (\<forall>i < length jobs0.
         jobs ! i = (if i < sub \<and> i \<notin> set queue then done_job e (deref m0 h) (jobs0 ! i)
                     else jobs0 ! i)) \<and>
      (\<forall>i < sub. i \<notin> set queue \<longrightarrow>
         fst (rescaled e (deref m0 h) (job_width (jobs0 ! i)) (job_height (jobs0 ! i))
                (job_data (jobs0 ! i))) \<or>
         Logged Info (mip_failed_text (job_width (jobs0 ! i)) (job_height (jobs0 ! i)))
           \<in> set (trace m)))"

section \<open>The specification's words\<close>

text \<open>
  Section 4.3 of the specification: the row stride is the scanline's byte length divided
  by the width; for each row, for each pixel, R, G, B, A are emitted in that order, the
  pixel \<open>x\<close> being read \<open>x\<close> strides into the row.
\<close>

definition spec_pixel :: "(nat \<Rightarrow> byte) \<Rightarrow> nat \<Rightarrow> nat \<Rightarrow> byte list" where
  "spec_pixel bits stride x =
     [bits (x * stride + FI_RGBA_RED), bits (x * stride + FI_RGBA_GREEN),
      bits (x * stride + FI_RGBA_BLUE), bits (x * stride + FI_RGBA_ALPHA)]"

definition spec_extract :: "FIBITMAP option \<Rightarrow> byte list" where
  "spec_extract dib =
     (let stride = unat (FreeImage_GetLine dib div FreeImage_GetWidth dib)
      in concat (map (\<lambda>y. concat (map (spec_pixel (FreeImage_GetScanLine dib y) stride)
                                      [0..<unat (FreeImage_GetWidth dib)]))
                     [0..<unat (FreeImage_GetHeight dib)]))"

text \<open>
  Section 4.4 of the specification: an image is grayscale when every pixel of the RGBA
  buffer has R = G = B; the alpha byte is not looked at.
\<close>

definition spec_gray_pixel :: "byte list \<Rightarrow> nat \<Rightarrow> bool" where
  "spec_gray_pixel rgba p =
     (rgba ! (4 * p) = rgba ! (4 * p + 1) \<and> rgba ! (4 * p) = rgba ! (4 * p + 2))"

definition spec_isGrayscale :: "byte list \<Rightarrow> int \<Rightarrow> int \<Rightarrow> bool" where
  "spec_isGrayscale rgba width height =
     list_all (spec_gray_pixel rgba) [0..<nat (width * height)]"

section \<open>Example inputs\<close>

text \<open>
  A bitmap whose byte at offset \<open>off\<close> of row \<open>y\<close> is \<open>16 * y + off\<close>, with rows
  of \<open>width * bpp / 8\<close> bytes.
\<close>

definition example_bitmap :: "uint \<Rightarrow> uint \<Rightarrow> uint \<Rightarrow> FIBITMAP" where
  "example_bitmap w h depth =
     \<lparr>bm_width = w, bm_height = h, bm_bpp = depth, bm_type = FIT_BITMAP,
      bm_line = w * (depth div 8), bm_transparent = False,
      bm_scanline = (\<lambda>y off. of_nat (16 * y + off))\<rparr>"

text \<open>
  Collaborators for the examples: every path exists and is no engine texture, the content
  probe answers format 0, decoding returns the given bitmap, rescaling and conversion
  return a bitmap of the requested size and depth, and the workers run every task as soon
  as it is submitted.
\<close>

definition example_rescale :: "FIBITMAP \<Rightarrow> int \<Rightarrow> int \<Rightarrow> FIBITMAP option" where
  "example_rescale b w h =
     (if w < 1 \<or> h < 1 then None
      else Some (b\<lparr>bm_width := word_of_int w, bm_height := word_of_int h,
                   bm_line := word_of_int w * (bm_bpp b div 8)\<rparr>))"

definition example_env :: "FIBITMAP option \<Rightarrow> env" where
  "example_env decoded =
     \<lparr>NOT_ASSIGNED = ''N/A'', FileExists = (\<lambda>_. True), IsEngineTextureFile = (\<lambda>_. False),
      Deserialize = (\<lambda>_ texInfo. (True, texInfo)), GetFileType = (\<lambda>_. 0),
      GetFIFFromFilename = (\<lambda>_. FIF_UNKNOWN), FIFSupportsReading = (\<lambda>fif. fif \<noteq> FIF_UNKNOWN),
      Decode = (\<lambda>_ _. decoded), Flip = (\<lambda>b. b), Rescale = example_rescale,
      ConvertTo32 = (\<lambda>b. Some (b\<lparr>bm_bpp := 32, bm_line := bm_width b * 4\<rparr>)),
      Workers = (\<lambda>n queue. queue)\<rparr>"

definition example_texInfo :: "uint \<Rightarrow> uint \<Rightarrow> bool \<Rightarrow> TextureInfo" where
  "example_texInfo w h mips =
     \<lparr>tex_width = w, tex_height = h, tex_bpp = 0, tex_channels = 0, tex_isTransparent = False,
      tex_isGrayscale = False, tex_isUsingMipmaps = mips, tex_loadState = NotStarted,
      tex_rgba = [], tex_rgba_mimaps = []\<rparr>"

text \<open>
  Two variations: the content probe fails and the extension names a format that cannot
  be read; the content probe itself names a format that cannot be read (and decoding
  returns the null pointer).
\<close>

definition example_env_unreadable_extension :: env where
  "example_env_unreadable_extension =
     (example_env None)\<lparr>GetFileType := (\<lambda>_. FIF_UNKNOWN), GetFIFFromFilename := (\<lambda>_. 7),
                         FIFSupportsReading := (\<lambda>_. False)\<rparr>"

definition example_env_unreadable_content :: env where
  "example_env_unreadable_content =
     (example_env None)\<lparr>GetFileType := (\<lambda>_. 5), FIFSupportsReading := (\<lambda>_. False)\<rparr>"


declare rgba_cols.simps [simp del] rgba_rows.simps [simp del]
declare gray_cols.simps [simp del] gray_rows.simps [simp del]
declare scalingJobs_loop.simps [simp del]
declare to_string_nat.simps [simp del]

section \<open>Properties\<close>

subsection \<open>The pixel extractor\<close>

lemma rgba_cols_eq:
  "x \<le> width \<Longrightarrow>
   rgba_cols bits width bytespp (x * bytespp) x rgba =
     rgba @ concat (map (spec_pixel bits bytespp) [x..<width])"
proof (induction "width - x" arbitrary: x rgba)
  case 0
  then have "\<not> x < width" by simp
  then show ?case by (subst rgba_cols.simps) simp
next
  case (Suc n)
  then have lt: "x < width" by simp
  have "rgba_cols bits width bytespp (x * bytespp) x rgba =
        rgba_cols bits width bytespp (Suc x * bytespp) (Suc x) (rgba @ spec_pixel bits bytespp x)"
    using lt by (simp add: rgba_cols.simps [of bits width bytespp "x * bytespp" x rgba]
        spec_pixel_def add.commute)
  also have "\<dots> = (rgba @ spec_pixel bits bytespp x) @
      concat (map (spec_pixel bits bytespp) [Suc x..<width])"
    using Suc lt by (intro Suc.hyps(1)) simp_all
  finally show ?case using lt by (simp add: upt_conv_Cons)
qed

lemma rgba_rows_eq:
  "y \<le> height \<Longrightarrow>
   rgba_rows dib width height bytespp y rgba =
     rgba @ concat (map (\<lambda>y. concat (map (spec_pixel (FreeImage_GetScanLine dib y) bytespp)
                                          [0..<width])) [y..<height])"
proof (induction "height - y" arbitrary: y rgba)
  case 0
  then have "\<not> y < height" by simp
  then show ?case by (subst rgba_rows.simps) simp
next
  case (Suc n)
  then have lt: "y < height" by simp
  have row: "rgba_cols (FreeImage_GetScanLine dib y) width bytespp 0 0 rgba =
      rgba @ concat (map (spec_pixel (FreeImage_GetScanLine dib y) bytespp) [0..<width])"
    using rgba_cols_eq [of 0 width "FreeImage_GetScanLine dib y" bytespp rgba] by simp
  have "rgba_rows dib width height bytespp y rgba =
        rgba_rows dib width height bytespp (Suc y)
          (rgba @ concat (map (spec_pixel (FreeImage_GetScanLine dib y) bytespp) [0..<width]))"
    using lt by (simp add: rgba_rows.simps [of dib width height bytespp y rgba] row)
  also have "\<dots> =
      (rgba @ concat (map (spec_pixel (FreeImage_GetScanLine dib y) bytespp) [0..<width])) @
      concat (map (\<lambda>y. concat (map (spec_pixel (FreeImage_GetScanLine dib y) bytespp)
                                     [0..<width])) [Suc y..<height])"
    using Suc lt by (intro Suc.hyps(1)) simp_all
  finally show ?case using lt by (simp add: upt_conv_Cons)
qed

lemma length_spec_row:
  "length (concat (map (spec_pixel bits stride) [x..<width])) = 4 * (width - x)"
proof (induction "width - x" arbitrary: x)
  case 0
  then show ?case by simp
next
  case (Suc n)
  then have lt: "x < width" by simp
  have "length (concat (map (spec_pixel bits stride) [Suc x..<width])) = 4 * (width - Suc x)"
    using Suc by (intro Suc.hyps(1)) simp
  then show ?case using lt by (simp add: upt_conv_Cons spec_pixel_def)
qed

lemma length_spec_rows:
  "length (concat (map (\<lambda>y. concat (map (spec_pixel (f y) stride) [0..<width])) [y..<height]))
   = 4 * width * (height - y)"
proof (induction "height - y" arbitrary: y)
  case 0
  then show ?case by simp
next
  case (Suc n)
  then have lt: "y < height" by simp
  have ih: "length (concat (map (\<lambda>y. concat (map (spec_pixel (f y) stride) [0..<width]))
              [Suc y..<height])) = 4 * width * (height - Suc y)"
    using Suc by (intro Suc.hyps(1)) simp
  have "height - y = Suc (height - Suc y)" using lt by simp
  then show ?case using lt ih by (simp add: upt_conv_Cons length_spec_row)
qed

lemma length_spec_extract:
  "length (spec_extract dib) =
   unat (FreeImage_GetWidth dib) * unat (FreeImage_GetHeight dib) * 4"
  unfolding spec_extract_def Let_def by (simp add: length_spec_rows)

lemma FIBTIMAPToRGBA_eq:
  "FIBTIMAPToRGBA dib rgba =
     (if FreeImage_GetWidth dib = 0 \<or> FreeImage_GetLine dib div FreeImage_GetWidth dib = - 1
      then (False, rgba) else (True, rgba @ spec_extract dib))"
  unfolding FIBTIMAPToRGBA_def Let_def spec_extract_def
  by (simp add: rgba_rows_eq)

lemma word_div_not_max:
  fixes l w :: uint
  assumes "l \<noteq> - 1"
  shows "l div w \<noteq> - 1"
proof -
  have "l div w \<le> l" by (simp add: word_le_nat_alt unat_div div_le_dividend)
  with assms show ?thesis by (metis max_word_max verit_la_disequality)
qed

lemma FIBTIMAPToRGBA_NULL [simp]: "FIBTIMAPToRGBA None rgba = (False, rgba)"
  by (simp add: FIBTIMAPToRGBA_eq FreeImage_GetWidth_def)

text \<open>
  C9. For a bitmap whose scanline length is not \<open>0xFFFFFFFF\<close> (no FreeImage bitmap has
  such rows), \<^verbatim>\<open>FIBTIMAPToRGBA\<close> returns false exactly when the width is 0 and then
  leaves the destination as it was; for any other width it returns true and has emitted,
  row by row and pixel by pixel, the bytes R, G, B, A, the pixels of a row lying
  \<open>scanline_bytes / width\<close> bytes apart.
\<close>

theorem FIBTIMAPToRGBA_fails_iff_width_0:
  assumes "FreeImage_GetLine fibtimap \<noteq> - 1"
  shows "(fst (FIBTIMAPToRGBA fibtimap rgba) = False) = (FreeImage_GetWidth fibtimap = 0)
       \<and> FIBTIMAPToRGBA fibtimap rgba =
           (if FreeImage_GetWidth fibtimap = 0 then (False, rgba)
            else (True, rgba @ spec_extract fibtimap))"
  using word_div_not_max [OF assms, of "FreeImage_GetWidth fibtimap"]
  by (simp add: FIBTIMAPToRGBA_eq)

theorem FIBTIMAPToRGBA_fails_iff_width_0_witness:
  "FreeImage_GetLine (Some (example_bitmap 2 1 32)) \<noteq> - 1
   \<and> FIBTIMAPToRGBA (Some (example_bitmap 2 1 32)) [9] = (True, [9, 2, 1, 0, 3, 6, 5, 4, 7])
   \<and> FIBTIMAPToRGBA (Some (example_bitmap 0 1 32)) [9] = (False, [9])"
proof -
  have l2: "FreeImage_GetLine (Some (example_bitmap 2 1 32)) \<noteq> - 1"
    and l0: "FreeImage_GetLine (Some (example_bitmap 0 1 32)) \<noteq> - 1"
    by (simp_all add: FreeImage_GetLine_def example_bitmap_def)
  show ?thesis
    using FIBTIMAPToRGBA_fails_iff_width_0 [OF l2, of "[9]"]
      FIBTIMAPToRGBA_fails_iff_width_0 [OF l0, of "[9]"] l2
    by (simp add: spec_extract_def spec_pixel_def FreeImage_GetLine_def FreeImage_GetWidth_def
        FreeImage_GetHeight_def FreeImage_GetScanLine_def example_bitmap_def
        FI_RGBA_RED_def FI_RGBA_GREEN_def FI_RGBA_BLUE_def FI_RGBA_ALPHA_def upt_rec)
qed

text \<open>
  C10. \<^verbatim>\<open>FIBTIMAPToRGBA\<close> appends to the destination and never clears it: whenever it
  succeeds the destination is its prior contents followed by exactly
  \<open>width * height * 4\<close> new bytes, so only an empty destination ends up holding just the
  image's pixels.
\<close>

theorem FIBTIMAPToRGBA_appends:
  assumes "fst (FIBTIMAPToRGBA fibtimap rgba)"
  shows "snd (FIBTIMAPToRGBA fibtimap rgba) = rgba @ spec_extract fibtimap
       \<and> length (spec_extract fibtimap) =
           unat (FreeImage_GetWidth fibtimap) * unat (FreeImage_GetHeight fibtimap) * 4
       \<and> (snd (FIBTIMAPToRGBA fibtimap rgba) = spec_extract fibtimap) =
           (rgba = [])"
  using assms by (simp add: FIBTIMAPToRGBA_eq length_spec_extract split: if_splits)

theorem FIBTIMAPToRGBA_appends_witness:
  "fst (FIBTIMAPToRGBA (Some (example_bitmap 1 2 32)) [7, 7])
   \<and> snd (FIBTIMAPToRGBA (Some (example_bitmap 1 2 32)) [7, 7]) =
       [7, 7, 2, 1, 0, 3, 18, 17, 16, 19]
   \<and> length (spec_extract (Some (example_bitmap 1 2 32))) = 8"
proof -
  have ok: "fst (FIBTIMAPToRGBA (Some (example_bitmap 1 2 32)) [7, 7])"
    by (simp add: FIBTIMAPToRGBA_eq FreeImage_GetLine_def FreeImage_GetWidth_def
        example_bitmap_def)
  show ?thesis
    using FIBTIMAPToRGBA_appends [OF ok] ok
    by (simp add: spec_extract_def spec_pixel_def FreeImage_GetLine_def FreeImage_GetWidth_def
        FreeImage_GetHeight_def FreeImage_GetScanLine_def example_bitmap_def
        FI_RGBA_RED_def FI_RGBA_GREEN_def FI_RGBA_BLUE_def FI_RGBA_ALPHA_def upt_rec)
qed

subsection \<open>The grayscale check\<close>

lemma vec_at_Some:
  "0 \<le> k \<Longrightarrow> k < int (length d) \<Longrightarrow> k \<le> INT_MAX \<Longrightarrow> vec_at d k = Some (d ! nat k)"
  by (simp add: vec_at_def int_ok_def INT_MAX_def)

lemma pixel_is_gray_Some:
  assumes "0 \<le> q" "q * 4 + 4 \<le> int (length d)" "q * 4 + 4 \<le> INT_MAX + 1" "q = i * width + j"
  shows "pixel_is_gray d width i j = Some (spec_gray_pixel d (nat q))"
proof -
  have a: "nat (q * 4) = 4 * nat q" "nat (q * 4 + 1) = 4 * nat q + 1"
    "nat (q * 4 + 2) = 4 * nat q + 2"
    using assms(1) by (simp_all add: nat_add_distrib nat_mult_distrib)
  show ?thesis
    using assms a unfolding pixel_is_gray_def Let_def spec_gray_pixel_def
    by (simp add: vec_at_Some)
qed

lemma count_upt_step:
  "a < b \<Longrightarrow> length (filter P [a..<b]) = (if P a then 1 else 0) + length (filter P [Suc a..<b])"
  by (simp add: upt_conv_Cons)

lemma gray_cols_eq:
  assumes "0 \<le> i" "0 \<le> j" "j \<le> width"
    "(i * width + width) * 4 \<le> int (length d)" "(i * width + width) * 4 \<le> INT_MAX + 1"
  shows "gray_cols d width i j g =
         Some (g + int (length (filter (spec_gray_pixel d)
                                  [nat (i * width + j)..<nat (i * width + width)])))"
  using assms
proof (induction "nat (width - j)" arbitrary: j g)
  case 0
  then have "j = width" by simp
  then show ?case by (subst gray_cols.simps) simp
next
  case (Suc n)
  then have lt: "j < width" by linarith
  have iw: "0 \<le> i * width" using Suc.prems lt by simp
  let ?q = "i * width + j"
  have q0: "0 \<le> ?q" using iw Suc.prems by simp
  have qb: "?q * 4 + 4 \<le> (i * width + width) * 4" using lt by simp
  have px: "pixel_is_gray d width i j = Some (spec_gray_pixel d (nat ?q))"
    using q0 qb Suc.prems by (intro pixel_is_gray_Some) simp_all
  have ih: "gray_cols d width i (j + 1) g' =
     Some (g' + int (length (filter (spec_gray_pixel d)
                               [nat (i * width + (j + 1))..<nat (i * width + width)])))" for g'
    using Suc lt by (intro Suc.hyps(1)) simp_all
  have nq: "nat (i * width + (j + 1)) = Suc (nat ?q)" using q0 by (simp add: nat_add_distrib)
  have lt': "nat ?q < nat (i * width + width)" using q0 lt by simp
  show ?case
    by (subst gray_cols.simps) (simp add: lt px ih nq count_upt_step [OF lt'])
qed

lemma gray_rows_eq:
  assumes "0 \<le> i" "i \<le> height" "0 \<le> width"
    "height * width * 4 \<le> int (length d)" "height * width * 4 \<le> INT_MAX + 1"
  shows "gray_rows d width height i g =
         Some (g + int (length (filter (spec_gray_pixel d)
                                  [nat (i * width)..<nat (height * width)])))"
  using assms
proof (induction "nat (height - i)" arbitrary: i g)
  case 0
  then have "i = height" by simp
  then show ?case by (subst gray_rows.simps) simp
next
  case (Suc n)
  then have lt: "i < height" by linarith
  have le: "(i + 1) * width \<le> height * width"
    using lt Suc.prems by (intro mult_right_mono) simp_all
  then have le': "(i * width + width) * 4 \<le> height * width * 4" by (simp add: algebra_simps)
  have cols: "gray_cols d width i 0 g =
     Some (g + int (length (filter (spec_gray_pixel d)
                              [nat (i * width)..<nat (i * width + width)])))"
    using gray_cols_eq [of i 0 width d g] Suc.prems le' by simp
  have ih: "gray_rows d width height (i + 1) g' =
     Some (g' + int (length (filter (spec_gray_pixel d)
                               [nat ((i + 1) * width)..<nat (height * width)])))" for g'
    using Suc lt by (intro Suc.hyps(1)) simp_all
  have part: "[nat (i * width)..<nat (height * width)] =
      [nat (i * width)..<nat (i * width + width)] @
      [nat (i * width + width)..<nat (height * width)]"
  proof -
    have "nat (i * width) \<le> nat (i * width + width)" using Suc.prems by simp
    moreover have "nat (i * width + width) \<le> nat (height * width)"
      using le by (simp add: algebra_simps)
    ultimately show ?thesis
      by (metis le_Suc_ex upt_add_eq_append)
  qed
  have eq: "(i + 1) * width = i * width + width" by (simp add: algebra_simps)
  have "gray_rows d width height i g =
        gray_rows d width height (i + 1)
          (g + int (length (filter (spec_gray_pixel d)
                              [nat (i * width)..<nat (i * width + width)])))"
    by (subst gray_rows.simps) (simp add: lt cols)
  then show ?case
    by (simp add: ih eq part)
qed

lemma count_all: "(length (filter P xs) = length xs) = list_all P xs"
proof (cases "list_all P xs")
  case True
  then have "filter P xs = xs" by (simp add: list_all_iff)
  with True show ?thesis by simp
next
  case False
  then obtain x where "x \<in> set xs" "\<not> P x" by (auto simp: list_all_iff)
  then have "length (filter P xs) < length xs" by (rule length_filter_less)
  with False show ?thesis by simp
qed

lemma GrayscaleCheck_eq:
  assumes "0 \<le> width" "0 \<le> height"
    "width * height * 4 \<le> int (length d)" "width * height * 4 \<le> INT_MAX"
  shows "GrayscaleCheck d width height = Some (spec_isGrayscale d width height)"
proof -
  have wh: "0 \<le> width * height" using assms by simp
  have ok: "int_ok (width * height)"
    using assms(4) wh unfolding int_ok_def INT_MAX_def by linarith
  have rows: "gray_rows d width height 0 0 =
      Some (int (length (filter (spec_gray_pixel d) [0..<nat (height * width)])))"
    using gray_rows_eq [of 0 height width d 0] assms by (simp add: mult.commute)
  let ?n = "length (filter (spec_gray_pixel d) [0..<nat (width * height)])"
  have rows': "gray_rows d width height 0 0 = Some (int ?n)"
    using rows by (simp add: mult.commute)
  have "(int ?n = width * height) = (?n = length [0..<nat (width * height)])"
    using wh by auto
  also have "\<dots> = list_all (spec_gray_pixel d) [0..<nat (width * height)]"
    by (rule count_all)
  finally have fin: "(int ?n = width * height) = spec_isGrayscale d width height"
    by (simp add: spec_isGrayscale_def)
  show ?thesis
    unfolding GrayscaleCheck_def Let_def using ok rows' fin by simp
qed

text \<open>
  C8. For non-negative dimensions and an RGBA buffer of at least \<open>width * height * 4\<close>
  bytes (a size an \<^verbatim>\<open>int\<close> can hold), \<^verbatim>\<open>GrayscaleCheck\<close> returns true exactly when
  every one of the \<open>width * height\<close> pixels has R = G = B, whatever the alpha bytes; one
  pixel with R different from B makes it false, and a zero-size image is grayscale.
\<close>

theorem GrayscaleCheck_iff_all_gray:
  assumes "0 \<le> width" "0 \<le> height"
    "width * height * 4 \<le> int (length dataRGBA)" "width * height * 4 \<le> INT_MAX"
  shows "GrayscaleCheck dataRGBA width height =
           Some (\<forall>p < nat (width * height).
                   dataRGBA ! (4 * p) = dataRGBA ! (4 * p + 1) \<and>
                   dataRGBA ! (4 * p) = dataRGBA ! (4 * p + 2))
       \<and> (\<forall>p < nat (width * height).
             dataRGBA ! (4 * p) \<noteq> dataRGBA ! (4 * p + 2) \<longrightarrow>
             GrayscaleCheck dataRGBA width height = Some False)
       \<and> (width = 0 \<or> height = 0 \<longrightarrow> GrayscaleCheck dataRGBA width height = Some True)"
proof -
  have "spec_isGrayscale dataRGBA width height =
        (\<forall>p < nat (width * height).
           dataRGBA ! (4 * p) = dataRGBA ! (4 * p + 1) \<and>
           dataRGBA ! (4 * p) = dataRGBA ! (4 * p + 2))"
    by (auto simp add: spec_isGrayscale_def list_all_iff spec_gray_pixel_def)
  then show ?thesis
    using GrayscaleCheck_eq [OF assms] by auto
qed

theorem GrayscaleCheck_iff_all_gray_witness:
  "(0::int) \<le> 2 \<and> (0::int) \<le> 1
   \<and> (2::int) * 1 * 4 \<le> int (length [1, 1, 1, 9, 2, 2, 3, 9 :: byte]) \<and> (2::int) * 1 * 4 \<le> INT_MAX
   \<and> GrayscaleCheck [1, 1, 1, 9, 2, 2, 3, 9] 2 1 = Some False
   \<and> GrayscaleCheck [1, 1, 1, 9, 2, 2, 2, 7] 2 1 = Some True"
proof -
  have a: "(0::int) \<le> 2" and b: "(0::int) \<le> 1" and d: "(2::int) * 1 * 4 \<le> INT_MAX"
    by (simp_all add: INT_MAX_def)
  have c1: "(2::int) * 1 * 4 \<le> int (length [1, 1, 1, 9, 2, 2, 3, 9 :: byte])"
    and c2: "(2::int) * 1 * 4 \<le> int (length [1, 1, 1, 9, 2, 2, 2, 7 :: byte])"
    by simp_all
  have p: "(\<forall>p<2. P p) = (P 0 \<and> P (Suc 0))" for P :: "nat \<Rightarrow> bool"
    by (auto simp add: less_Suc_eq numeral_2_eq_2)
  show ?thesis
    using GrayscaleCheck_iff_all_gray [OF a b c1 d] GrayscaleCheck_iff_all_gray [OF a b c2 d] d
    by (simp add: p)
qed

subsection \<open>The store and the trace\<close>

lemma state_writes_append [simp]: "state_writes (xs @ ys) = state_writes xs @ state_writes ys"
  by (simp add: state_writes_def)

lemma state_writes_simps [simp]:
  "state_writes [] = []"
  "state_writes (StateWrite s # evs) = s # state_writes evs"
  "state_writes (Logged l t # evs) = state_writes evs"
  "state_writes (PathChecked # evs) = state_writes evs"
  "state_writes (EngineTextureRead # evs) = state_writes evs"
  "state_writes (FormatProbed # evs) = state_writes evs"
  "state_writes (Created h # evs) = state_writes evs"
  "state_writes (Unloaded h # evs) = state_writes evs"
  by (simp_all add: state_writes_def)

lemma quiet_refl [simp]: "quiet m m"
  by (simp add: quiet_def)

lemma quiet_trans: "quiet m1 m2 \<Longrightarrow> quiet m2 m3 \<Longrightarrow> quiet m1 m3"
  by (auto simp add: quiet_def)

lemma quiet_emit:
  "state_writes [ev] = [] \<Longrightarrow> quiet m m' \<Longrightarrow> quiet m (emit ev m')"
  by (auto simp add: quiet_def emit_def)

lemma quiet_heap [simp]: "quiet m (m'\<lparr>heap := hp\<rparr>) = quiet m m'"
  "quiet m (m'\<lparr>next_handle := n\<rparr>) = quiet m m'"
  by (simp_all add: quiet_def)

lemma stable_refl [simp]: "stable m m"
  by (simp add: stable_def)

lemma stable_trans: "stable m1 m2 \<Longrightarrow> stable m2 m3 \<Longrightarrow> stable m1 m3"
  unfolding stable_def by (auto intro: quiet_trans)

lemma quiet_alloc: "quiet m (snd (alloc b m))"
  by (simp add: alloc_def Let_def quiet_emit)

lemma quiet_Unload: "quiet m (FreeImage_Unload h m)"
  by (simp add: FreeImage_Unload_def quiet_emit)

lemma quiet_Rescale: "quiet m (snd (FreeImage_Rescale e h w h' m))"
  by (simp add: FreeImage_Rescale_def quiet_alloc split: option.splits)

lemma quiet_Convert: "quiet m (snd (FreeImage_ConvertTo32Bits e h m))"
  by (simp add: FreeImage_ConvertTo32Bits_def quiet_alloc split: option.splits)

lemma quiet_Load: "quiet m (snd (FreeImage_Load e f p m))"
  by (simp add: FreeImage_Load_def quiet_alloc split: option.splits)

lemma quiet_Flip: "quiet m (FreeImage_FlipVertical e h m)"
  by (simp add: FreeImage_FlipVertical_def split: option.splits)

lemma quiet_Validate: "quiet m (snd (ValidateFilePath e p m))"
  by (simp add: ValidateFilePath_def Let_def LOG_WARNING_def quiet_emit)

lemma quiet_LoadEngineTexture: "quiet m (snd (snd (LoadEngineTexture e p t m)))"
  by (simp add: LoadEngineTexture_def Let_def LOG_WARNING_def quiet_emit split: prod.splits)

lemma quiet_Load_format: "quiet m (snd (Load_format e p m))"
  by (simp add: Load_format_def Let_def LOG_WARNING_def quiet_emit)

lemma grows_refl [simp]: "grows m m"
  by (simp add: grows_def)

lemma grows_trans: "grows m1 m2 \<Longrightarrow> grows m2 m3 \<Longrightarrow> grows m1 m3"
  unfolding grows_def by (auto intro: quiet_trans)

lemma emit_fields [simp]:
  "heap (emit ev m) = heap m" "next_handle (emit ev m) = next_handle m"
  "trace (emit ev m) = trace m @ [ev]"
  by (simp_all add: emit_def)

lemma deref_emit [simp]: "deref (emit ev m) h = deref m h"
  by (simp add: deref_def)

lemma alloc_props:
  assumes "alloc b m = (h, m')"
  shows "h = Suc (next_handle m)" "next_handle m' = h" "heap m' = (heap m)(h \<mapsto> b)"
    "trace m' = trace m @ [Created h]" "deref m' h = Some b"
  using assms by (auto simp add: alloc_def Let_def deref_def NULL_def)

lemma grows_alloc: "alloc b m = (h, m') \<Longrightarrow> grows m m' \<and> h \<le> next_handle m'"
  using quiet_alloc [of m b] alloc_props(1,2) [of b m h m'] by (simp add: grows_def)

lemma grows_Load:
  "FreeImage_Load e f p m = (h, m') \<Longrightarrow> grows m m' \<and> h \<le> next_handle m'"
  by (auto simp add: FreeImage_Load_def NULL_def split: option.splits dest: grows_alloc)

lemma grows_Rescale:
  "FreeImage_Rescale e h0 w h' m = (h, m') \<Longrightarrow> grows m m' \<and> h \<le> next_handle m'"
  by (auto simp add: FreeImage_Rescale_def NULL_def split: option.splits dest: grows_alloc)

lemma grows_Convert:
  "FreeImage_ConvertTo32Bits e h0 m = (h, m') \<Longrightarrow> grows m m' \<and> h \<le> next_handle m'"
  by (auto simp add: FreeImage_ConvertTo32Bits_def NULL_def split: option.splits dest: grows_alloc)

lemma grows_Flip: "grows m (FreeImage_FlipVertical e h m)"
  using quiet_Flip [of m e h]
  by (simp add: grows_def) (simp add: FreeImage_FlipVertical_def split: option.splits)

lemma grows_Unload: "grows m (FreeImage_Unload h m)"
  using quiet_Unload [of m h] by (simp add: grows_def) (simp add: FreeImage_Unload_def)

lemma Load_bitmaps_props:
  assumes "Load_bitmaps e p f t m = (bO, sc, bS, b32, t2, m4)"
  shows "grows m m4" "b32 \<le> next_handle m4" "bS \<le> next_handle m4" "bO \<le> next_handle m4"
    "t2 = t\<lparr>tex_bpp := 32\<rparr>"
proof -
  obtain h1 m1 where 1: "FreeImage_Load e f p m = (h1, m1)" by fastforce
  define m2 where "m2 = FreeImage_FlipVertical e h1 m1"
  define scale where "scale = ((tex_width t \<noteq> 0 \<and> tex_height t \<noteq> 0) \<and>
     (FreeImage_GetWidth (deref m2 h1) \<noteq> tex_width t \<and>
      FreeImage_GetHeight (deref m2 h1) \<noteq> tex_height t))"
  obtain h3 m3 where 3: "(if scale then FreeImage_Rescale e h1 (sint (tex_width t))
      (sint (tex_height t)) m2 else (h1, m2)) = (h3, m3)" by fastforce
  obtain h4 m4' where 4: "(if FreeImage_GetBPP (deref m3 h1) \<noteq> 32
      then FreeImage_ConvertTo32Bits e h3 m3 else (h3, m3)) = (h4, m4')" by fastforce
  have "Load_bitmaps e p f t m = (h1, scale, h3, h4, t\<lparr>tex_bpp := 32\<rparr>, m4')"
    using 1 3 4 unfolding Load_bitmaps_def Let_def m2_def scale_def by simp
  with assms have res: "bO = h1" "sc = scale" "bS = h3" "b32 = h4" "m4 = m4'"
    "t2 = t\<lparr>tex_bpp := 32\<rparr>"
    by simp_all
  have g1: "grows m m1" "h1 \<le> next_handle m1" using grows_Load [OF 1] by simp_all
  have g2: "grows m1 m2" unfolding m2_def by (rule grows_Flip)
  have g3: "grows m2 m3 \<and> h3 \<le> next_handle m3"
  proof (cases scale)
    case True
    with 3 show ?thesis by (auto dest: grows_Rescale)
  next
    case False
    with 3 g1 g2 show ?thesis by (auto simp add: grows_def)
  qed
  have g4: "grows m3 m4' \<and> h4 \<le> next_handle m4'"
  proof (cases "FreeImage_GetBPP (deref m3 h1) \<noteq> 32")
    case True
    with 4 show ?thesis by (auto dest: grows_Convert)
  next
    case False
    with 4 g3 show ?thesis by auto
  qed
  show "grows m m4" using g1 g2 g3 g4 res by (blast intro: grows_trans)
  show "b32 \<le> next_handle m4" using g4 res by simp
  show "bS \<le> next_handle m4" using g3 g4 res by (auto simp add: grows_def)
  show "bO \<le> next_handle m4" using g1 g2 g3 g4 res by (auto simp add: grows_def)
  show "t2 = t\<lparr>tex_bpp := 32\<rparr>" by (rule res)
qed

lemma quiet_set: "quiet m m' \<Longrightarrow> set (trace m) \<subseteq> set (trace m')"
  by (auto simp add: quiet_def)

lemma stable_deref: "stable m m' \<Longrightarrow> h \<le> next_handle m \<Longrightarrow> deref m' h = deref m h"
  by (simp add: stable_def deref_def)

lemma stable_grows: "stable m m' \<Longrightarrow> grows m m'"
  by (simp add: stable_def grows_def)

lemma deref_NULL [simp]: "deref m NULL = None"
  by (simp add: deref_def)

lemma Unload_NULL [simp]: "FreeImage_Unload NULL m = m"
  by (simp add: FreeImage_Unload_def)

lemma RescaleFIBITMAP_eq:
  "\<exists>m'. RescaleFIBITMAP e h width height rgba m =
          (fst (rescaled e (deref m h) width height rgba),
           snd (rescaled e (deref m h) width height rgba), m') \<and> stable m m'"
proof (cases "deref m h")
  case None
  then show ?thesis
    by (simp add: RescaleFIBITMAP_def FreeImage_Rescale_def rescaled_def)
next
  case (Some b)
  show ?thesis
  proof (cases "Rescale e b width height")
    case None
    with Some show ?thesis
      by (simp add: RescaleFIBITMAP_def FreeImage_Rescale_def rescaled_def)
  next
    case (Some b')
    obtain h1 m1 where a: "alloc b' m = (h1, m1)" by fastforce
    note p = alloc_props [OF a]
    have st: "stable m (FreeImage_Unload h1 m1)"
      using p quiet_alloc [of m b'] a
      by (auto simp add: stable_def FreeImage_Unload_def intro!: quiet_emit)
    show ?thesis
      using \<open>deref m h = Some b\<close> Some a p(5) st
      by (simp add: RescaleFIBITMAP_def FreeImage_Rescale_def rescaled_def split: prod.splits)
  qed
qed

lemma mip_task_eq:
  "\<exists>m'. mip_task e h job m =
          (job\<lparr>job_data := snd (rescaled e (deref m h) (job_width job) (job_height job)
                                  (job_data job)),
                job_complete := True\<rparr>, m') \<and> stable m m' \<and>
         (fst (rescaled e (deref m h) (job_width job) (job_height job) (job_data job)) \<or>
          Logged Info (mip_failed_text (job_width job) (job_height job)) \<in> set (trace m'))"
proof -
  obtain m1 where r: "RescaleFIBITMAP e h (job_width job) (job_height job) (job_data job) m =
          (fst (rescaled e (deref m h) (job_width job) (job_height job) (job_data job)),
           snd (rescaled e (deref m h) (job_width job) (job_height job) (job_data job)), m1)"
    and st: "stable m m1"
    using RescaleFIBITMAP_eq by blast
  have "stable m (LOG_INFO t m1)" for t
    using st by (simp add: stable_def LOG_INFO_def quiet_emit)
  then show ?thesis
    using r st by (auto simp add: mip_task_def LOG_INFO_def)
qed

lemma all_complete_fold:
  "fold (\<lambda>proccess ready. if \<not> job_complete proccess then False else ready) jobs b =
   (b \<and> list_all job_complete jobs)"
  by (induction jobs arbitrary: b) auto

lemma all_complete_eq: "all_complete jobs = list_all job_complete jobs"
  by (simp add: all_complete_def all_complete_fold)

lemma mip_inv_run_task:
  assumes inv: "mip_inv e h m0 jobs0 sub queue jobs m" and c: "c \<in> set queue"
  shows "\<exists>jobs1 m1. run_task e h c (jobs, m) = (jobs1, m1) \<and>
           mip_inv e h m0 jobs0 sub (removeAll c queue) jobs1 m1"
proof -
  have h0: "h \<le> next_handle m0" and st: "stable m0 m" and dq: "distinct queue"
    and qs: "\<forall>i \<in> set queue. i < sub" and sl: "sub \<le> length jobs0"
    and len: "length jobs = length jobs0"
    and nth: "\<forall>i < length jobs0.
         jobs ! i = (if i < sub \<and> i \<notin> set queue then done_job e (deref m0 h) (jobs0 ! i)
                     else jobs0 ! i)"
    and lg: "\<forall>i < sub. i \<notin> set queue \<longrightarrow>
         fst (rescaled e (deref m0 h) (job_width (jobs0 ! i)) (job_height (jobs0 ! i))
                (job_data (jobs0 ! i))) \<or>
         Logged Info (mip_failed_text (job_width (jobs0 ! i)) (job_height (jobs0 ! i)))
           \<in> set (trace m)"
    using inv unfolding mip_inv_def by blast+
  have cl: "c < sub" "c < length jobs0" "c < length jobs" using c qs sl len by auto
  have jc: "jobs ! c = jobs0 ! c" using nth cl c by simp
  have d: "deref m h = deref m0 h" using st h0 by (rule stable_deref)
  obtain m1 where t: "mip_task e h (jobs0 ! c) m = (done_job e (deref m0 h) (jobs0 ! c), m1)"
    and st1: "stable m m1"
    and lg1: "fst (rescaled e (deref m0 h) (job_width (jobs0 ! c)) (job_height (jobs0 ! c))
                (job_data (jobs0 ! c))) \<or>
         Logged Info (mip_failed_text (job_width (jobs0 ! c)) (job_height (jobs0 ! c)))
           \<in> set (trace m1)"
    using mip_task_eq [of e h "jobs0 ! c" m] by (auto simp add: d done_job_def)
  have r: "run_task e h c (jobs, m) = (jobs[c := done_job e (deref m0 h) (jobs0 ! c)], m1)"
    using cl t by (simp add: run_task_def jc)
  have sub: "set (trace m) \<subseteq> set (trace m1)"
    using st1 by (simp add: stable_def quiet_set)
  have "mip_inv e h m0 jobs0 sub (removeAll c queue)
          (jobs[c := done_job e (deref m0 h) (jobs0 ! c)]) m1"
    unfolding mip_inv_def
  proof (intro conjI allI impI ballI)
    show "h \<le> next_handle m0" by (rule h0)
    show "stable m0 m1" by (rule stable_trans [OF st st1])
    show "distinct (removeAll c queue)" using dq by (simp add: distinct_removeAll)
    show "i < sub" if "i \<in> set (removeAll c queue)" for i using that qs by simp
    show "sub \<le> length jobs0" by (rule sl)
    show "length (jobs[c := done_job e (deref m0 h) (jobs0 ! c)]) = length jobs0"
      using len by simp
    show "jobs[c := done_job e (deref m0 h) (jobs0 ! c)] ! i =
          (if i < sub \<and> i \<notin> set (removeAll c queue) then done_job e (deref m0 h) (jobs0 ! i)
           else jobs0 ! i)" if "i < length jobs0" for i
      using that nth cl len by (cases "i = c") (simp_all add: nth_list_update)
    show "fst (rescaled e (deref m0 h) (job_width (jobs0 ! i)) (job_height (jobs0 ! i))
                (job_data (jobs0 ! i))) \<or>
         Logged Info (mip_failed_text (job_width (jobs0 ! i)) (job_height (jobs0 ! i)))
           \<in> set (trace m1)" if "i < sub" "i \<notin> set (removeAll c queue)" for i
    proof (cases "i = c")
      case True
      then show ?thesis using lg1 by simp
    next
      case False
      then have "i \<notin> set queue" using that by simp
      then show ?thesis using lg that(1) sub by blast
    qed
  qed
  then show ?thesis using r by blast
qed

lemma mip_inv_fold:
  "distinct cs \<Longrightarrow> set cs \<subseteq> set queue \<Longrightarrow> mip_inv e h m0 jobs0 sub queue jobs m \<Longrightarrow>
   \<exists>jobs1 m1. fold (run_task e h) cs (jobs, m) = (jobs1, m1) \<and>
     mip_inv e h m0 jobs0 sub (filter (\<lambda>i. i \<notin> set cs) queue) jobs1 m1"
proof (induction cs arbitrary: queue jobs m)
  case Nil
  then show ?case by simp
next
  case (Cons c cs)
  then have c: "c \<in> set queue" by simp
  obtain jobs1 m1 where r: "run_task e h c (jobs, m) = (jobs1, m1)"
    and inv1: "mip_inv e h m0 jobs0 sub (removeAll c queue) jobs1 m1"
    using mip_inv_run_task [OF Cons.prems(3) c] by blast
  have d: "distinct cs" and s: "set cs \<subseteq> set (removeAll c queue)"
    using Cons.prems by auto
  obtain jobs2 m2 where f: "fold (run_task e h) cs (jobs1, m1) = (jobs2, m2)"
    and inv2: "mip_inv e h m0 jobs0 sub (filter (\<lambda>i. i \<notin> set cs) (removeAll c queue)) jobs2 m2"
    using Cons.IH [OF d s inv1] by blast
  have "filter (\<lambda>i. i \<notin> set cs) (removeAll c queue) = filter (\<lambda>i. i \<notin> set (c # cs)) queue"
    by (induction queue) auto
  then show ?case using r f inv2 by simp
qed

lemma mip_inv_workers_step:
  assumes "mip_inv e h m0 jobs0 sub queue jobs m"
  shows "\<exists>jobs1 m1. workers_step e h n (queue, jobs, m) = (queue_rest e n queue, jobs1, m1) \<and>
           mip_inv e h m0 jobs0 sub (queue_rest e n queue) jobs1 m1"
proof -
  have d: "distinct (workers_chosen e n queue)" and s: "set (workers_chosen e n queue) \<subseteq> set queue"
    by (auto simp add: workers_chosen_def)
  obtain jobs1 m1 where
    f: "fold (run_task e h) (workers_chosen e n queue) (jobs, m) = (jobs1, m1)"
    and inv: "mip_inv e h m0 jobs0 sub
       (filter (\<lambda>i. i \<notin> set (workers_chosen e n queue)) queue) jobs1 m1"
    using mip_inv_fold [OF d s assms] by blast
  show ?thesis
    using f inv by (simp add: workers_step_def queue_rest_def)
qed

lemma mip_inv_submit:
  assumes "mip_inv e h m0 jobs0 sub queue jobs m" "sub < length jobs0"
  shows "mip_inv e h m0 jobs0 (Suc sub) (queue @ [sub]) jobs m"
  using assms unfolding mip_inv_def
  by (auto simp add: less_Suc_eq)

lemma submit_tasks_inv:
  "mip_inv e h m0 jobs0 sub queue jobs m \<Longrightarrow> sub \<le> len \<Longrightarrow> len \<le> length jobs0 \<Longrightarrow>
   \<exists>jobs1 m1. submit_tasks e h [sub..<len] n (queue, jobs, m) =
                 (queue_submit e [sub..<len] n queue, jobs1, m1) \<and>
     mip_inv e h m0 jobs0 len (queue_submit e [sub..<len] n queue) jobs1 m1"
proof (induction "len - sub" arbitrary: sub n queue jobs m)
  case 0
  then have "sub = len" by simp
  with 0 show ?case by simp
next
  case (Suc d)
  then have lt: "sub < len" by simp
  have inv1: "mip_inv e h m0 jobs0 (Suc sub) (queue @ [sub]) jobs m"
    using Suc.prems lt by (intro mip_inv_submit) simp_all
  obtain jobs1 m1 where
    w: "workers_step e h n (queue @ [sub], jobs, m) = (queue_rest e n (queue @ [sub]), jobs1, m1)"
    and inv2: "mip_inv e h m0 jobs0 (Suc sub) (queue_rest e n (queue @ [sub])) jobs1 m1"
    using mip_inv_workers_step [OF inv1] by blast
  obtain jobs2 m2 where
    s: "submit_tasks e h [Suc sub..<len] (Suc n) (queue_rest e n (queue @ [sub]), jobs1, m1) =
         (queue_submit e [Suc sub..<len] (Suc n) (queue_rest e n (queue @ [sub])), jobs2, m2)"
    and inv3: "mip_inv e h m0 jobs0 len
         (queue_submit e [Suc sub..<len] (Suc n) (queue_rest e n (queue @ [sub]))) jobs2 m2"
  proof -
    have dd: "d = len - Suc sub" using Suc.hyps(2) lt by simp
    have l1: "Suc sub \<le> len" using lt by simp
    show ?thesis
      using Suc.hyps(1) [OF dd inv2 l1 Suc.prems(3), of "Suc n"] that by blast
  qed
  show ?case
    using lt w s inv3 by (simp add: upt_conv_Cons)
qed

lemma mip_inv_complete:
  assumes inv: "mip_inv e h m0 jobs0 (length jobs0) queue jobs m"
    and new: "list_all (\<lambda>job. \<not> job_complete job) jobs0"
  shows "all_complete jobs = (queue = [])"
proof -
  have len: "length jobs = length jobs0"
    and qs: "\<forall>i \<in> set queue. i < length jobs0"
    and nth: "\<forall>i < length jobs0.
         jobs ! i = (if i < length jobs0 \<and> i \<notin> set queue then done_job e (deref m0 h) (jobs0 ! i)
                     else jobs0 ! i)"
    using inv unfolding mip_inv_def by blast+
  have c: "job_complete (jobs ! i) = (i \<notin> set queue)" if "i < length jobs0" for i
    using that nth new by (auto simp add: list_all_length done_job_def)
  have "all_complete jobs = (\<forall>i < length jobs0. i \<notin> set queue)"
    using c len by (auto simp add: all_complete_eq list_all_length)
  also have "\<dots> = (queue = [])"
    using qs by (cases queue) auto
  finally show ?thesis .
qed

lemma mip_inv_all_done:
  assumes inv: "mip_inv e h m0 jobs0 (length jobs0) [] jobs m"
  shows "jobs = map (done_job e (deref m0 h)) jobs0"
  using inv unfolding mip_inv_def by (auto intro!: nth_equalityI)

lemma wait_until_ready_inv:
  assumes "wait_until_ready e h n queue jobs m = Some r"
  shows "mip_inv e h m0 jobs0 (length jobs0) queue jobs m \<longrightarrow>
   list_all (\<lambda>job. \<not> job_complete job) jobs0 \<longrightarrow>
   mip_inv e h m0 jobs0 (length jobs0) [] (fst r) (snd r)"
proof (rule wait_until_ready.raw_induct
    [where P = "\<lambda>e h n queue jobs m r.
       mip_inv e h m0 jobs0 (length jobs0) queue jobs m \<longrightarrow>
       list_all (\<lambda>job. \<not> job_complete job) jobs0 \<longrightarrow>
       mip_inv e h m0 jobs0 (length jobs0) [] (fst r) (snd r)", OF _ assms])
  fix wait e h n queue jobs m r
  assume IH: "\<And>e h n queue jobs m r. wait e h n queue jobs m = Some r \<Longrightarrow>
       mip_inv e h m0 jobs0 (length jobs0) queue jobs m \<longrightarrow>
       list_all (\<lambda>job. \<not> job_complete job) jobs0 \<longrightarrow>
       mip_inv e h m0 jobs0 (length jobs0) [] (fst r) (snd r)"
    and eq: "(case workers_step e h n (queue, jobs, m) of
      (queue1, scalingJobs1, m1) \<Rightarrow>
        if all_complete scalingJobs1 then Some (scalingJobs1, m1)
        else wait e h (Suc n) queue1 scalingJobs1 m1) = Some r"
  show "mip_inv e h m0 jobs0 (length jobs0) queue jobs m \<longrightarrow>
       list_all (\<lambda>job. \<not> job_complete job) jobs0 \<longrightarrow>
       mip_inv e h m0 jobs0 (length jobs0) [] (fst r) (snd r)"
  proof (intro impI)
    assume inv: "mip_inv e h m0 jobs0 (length jobs0) queue jobs m"
      and new: "list_all (\<lambda>job. \<not> job_complete job) jobs0"
    obtain jobs1 m1 where
      w: "workers_step e h n (queue, jobs, m) = (queue_rest e n queue, jobs1, m1)"
      and inv1: "mip_inv e h m0 jobs0 (length jobs0) (queue_rest e n queue) jobs1 m1"
      using mip_inv_workers_step [OF inv] by blast
    show "mip_inv e h m0 jobs0 (length jobs0) [] (fst r) (snd r)"
    proof (cases "all_complete jobs1")
      case True
      then have "queue_rest e n queue = []"
        using mip_inv_complete [OF inv1 new] by simp
      moreover have "r = (jobs1, m1)" using eq w True by simp
      ultimately show ?thesis using inv1 by simp
    next
      case False
      then have "wait e h (Suc n) (queue_rest e n queue) jobs1 m1 = Some r"
        using eq w by simp
      then show ?thesis using IH inv1 new by blast
    qed
  qed
qed

lemma wait_until_ready_Some:
  assumes "wait_until_ready e h n queue jobs m = Some r"
    and "mip_inv e h m0 jobs0 (length jobs0) queue jobs m"
    and "list_all (\<lambda>job. \<not> job_complete job) jobs0"
  shows "mip_inv e h m0 jobs0 (length jobs0) [] (fst r) (snd r)"
  using wait_until_ready_inv [OF assms(1)] assms(2,3) by blast


lemma scalingJobs_loop_fresh:
  "list_all (\<lambda>job. job_data job = [] \<and> \<not> job_complete job) acc \<Longrightarrow>
   list_all (\<lambda>job. job_data job = [] \<and> \<not> job_complete job) (scalingJobs_loop width height acc)"
proof (induction width height acc rule: scalingJobs_loop.induct)
  case (1 width height scalingJobs)
  show ?case
  proof (cases "width > 1 \<and> height > 1")
    case True
    then show ?thesis
      using 1 by (subst scalingJobs_loop.simps) (simp add: Let_def new_scalingProcess_def)
  next
    case False
    then show ?thesis
      using 1 by (subst scalingJobs_loop.simps) auto
  qed
qed

lemma mip_inv_start: "h \<le> next_handle m \<Longrightarrow> mip_inv e h m jobs0 0 [] jobs0 m"
  by (simp add: mip_inv_def)

lemma GenerateMipmaps_unfold:
  assumes "h \<le> next_handle m"
  shows "\<exists>queue jobs1 m1.
     mip_inv e h m (scalingJobs_loop (sint (tex_width t)) (sint (tex_height t)) [])
       (length (scalingJobs_loop (sint (tex_width t)) (sint (tex_height t)) []))
       queue jobs1 m1 \<and>
     queue = queue_submit e
       [0..<length (scalingJobs_loop (sint (tex_width t)) (sint (tex_height t)) [])] 0 [] \<and>
     GenerateMipmapsFromFIBITMAP e h t m =
       (case wait_until_ready e h
               (length (scalingJobs_loop (sint (tex_width t)) (sint (tex_height t)) []))
               queue jobs1 m1 of
          None \<Rightarrow> None
        | Some (jobs2, m2) \<Rightarrow>
            Some (t\<lparr>tex_rgba_mimaps := tex_rgba_mimaps t @ [tex_rgba t] @ map job_data jobs2,
                    tex_rgba := []\<rparr>, m2))"
proof -
  let ?jobs = "scalingJobs_loop (sint (tex_width t)) (sint (tex_height t)) []"
  obtain jobs1 m1 where
    s: "submit_tasks e h [0..<length ?jobs] 0 ([], ?jobs, m) =
          (queue_submit e [0..<length ?jobs] 0 [], jobs1, m1)"
    and inv: "mip_inv e h m ?jobs (length ?jobs) (queue_submit e [0..<length ?jobs] 0 []) jobs1 m1"
  proof -
    have "\<exists>jobs1 m1. submit_tasks e h [0..<length ?jobs] 0 ([], ?jobs, m) =
                 (queue_submit e [0..<length ?jobs] 0 [], jobs1, m1) \<and>
       mip_inv e h m ?jobs (length ?jobs) (queue_submit e [0..<length ?jobs] 0 []) jobs1 m1"
      by (rule submit_tasks_inv [OF mip_inv_start [OF assms]]) simp_all
    then show ?thesis using that by blast
  qed
  have "GenerateMipmapsFromFIBITMAP e h t m =
       (case wait_until_ready e h (length ?jobs) (queue_submit e [0..<length ?jobs] 0 [])
               jobs1 m1 of
          None \<Rightarrow> None
        | Some (jobs2, m2) \<Rightarrow>
            Some (t\<lparr>tex_rgba_mimaps := tex_rgba_mimaps t @ [tex_rgba t] @ map job_data jobs2,
                    tex_rgba := []\<rparr>, m2))"
    unfolding GenerateMipmapsFromFIBITMAP_def Let_def using s
    by (simp split: option.splits)
  then show ?thesis using inv by blast
qed

lemma GenerateMipmaps_Some:
  assumes h: "h \<le> next_handle m"
    and r: "GenerateMipmapsFromFIBITMAP e h t m = Some (t', m')"
  shows "t' = t\<lparr>tex_rgba_mimaps := tex_rgba_mimaps t @ [tex_rgba t] @
                map (\<lambda>job. snd (rescaled e (deref m h) (job_width job) (job_height job) []))
                  (scalingJobs_loop (sint (tex_width t)) (sint (tex_height t)) []),
              tex_rgba := []\<rparr>"
    and "stable m m'"
    and "\<forall>job \<in> set (scalingJobs_loop (sint (tex_width t)) (sint (tex_height t)) []).
         fst (rescaled e (deref m h) (job_width job) (job_height job) []) \<or>
         Logged Info (mip_failed_text (job_width job) (job_height job)) \<in> set (trace m')"
proof -
  let ?jobs = "scalingJobs_loop (sint (tex_width t)) (sint (tex_height t)) []"
  have fresh: "list_all (\<lambda>job. job_data job = [] \<and> \<not> job_complete job) ?jobs"
    by (rule scalingJobs_loop_fresh) simp
  then have data: "\<And>job. job \<in> set ?jobs \<Longrightarrow> job_data job = []"
    and new: "list_all (\<lambda>job. \<not> job_complete job) ?jobs"
    by (auto simp add: list_all_iff)
  obtain queue jobs1 m1 where
    inv: "mip_inv e h m ?jobs (length ?jobs) queue jobs1 m1"
    and g: "GenerateMipmapsFromFIBITMAP e h t m =
       (case wait_until_ready e h (length ?jobs) queue jobs1 m1 of
          None \<Rightarrow> None
        | Some (jobs2, m2) \<Rightarrow>
            Some (t\<lparr>tex_rgba_mimaps := tex_rgba_mimaps t @ [tex_rgba t] @ map job_data jobs2,
                    tex_rgba := []\<rparr>, m2))"
    using GenerateMipmaps_unfold [OF h, of e t] by blast
  obtain jobs2 where w: "wait_until_ready e h (length ?jobs) queue jobs1 m1 = Some (jobs2, m')"
    and t': "t' = t\<lparr>tex_rgba_mimaps := tex_rgba_mimaps t @ [tex_rgba t] @ map job_data jobs2,
                    tex_rgba := []\<rparr>"
    using r g by (auto split: option.splits)
  have fin: "mip_inv e h m ?jobs (length ?jobs) [] jobs2 m'"
    using wait_until_ready_Some [OF w inv new] by simp
  have j2: "jobs2 = map (done_job e (deref m h)) ?jobs"
    by (rule mip_inv_all_done [OF fin])
  have "map job_data jobs2 =
        map (\<lambda>job. snd (rescaled e (deref m h) (job_width job) (job_height job) [])) ?jobs"
    using data by (simp add: j2 done_job_def)
  then show "t' = t\<lparr>tex_rgba_mimaps := tex_rgba_mimaps t @ [tex_rgba t] @
                map (\<lambda>job. snd (rescaled e (deref m h) (job_width job) (job_height job) []))
                  ?jobs,
              tex_rgba := []\<rparr>"
    using t' by simp
  show "stable m m'" using fin by (simp add: mip_inv_def)
  have lg: "\<forall>i < length ?jobs.
         fst (rescaled e (deref m h) (job_width (?jobs ! i)) (job_height (?jobs ! i))
                (job_data (?jobs ! i))) \<or>
         Logged Info (mip_failed_text (job_width (?jobs ! i)) (job_height (?jobs ! i)))
           \<in> set (trace m')"
    using fin by (simp add: mip_inv_def)
  show "\<forall>job \<in> set ?jobs.
         fst (rescaled e (deref m h) (job_width job) (job_height job) []) \<or>
         Logged Info (mip_failed_text (job_width job) (job_height job)) \<in> set (trace m')"
  proof
    fix job assume j: "job \<in> set ?jobs"
    then obtain i where "i < length ?jobs" "?jobs ! i = job" by (auto simp add: in_set_conv_nth)
    then show "fst (rescaled e (deref m h) (job_width job) (job_height job) []) \<or>
         Logged Info (mip_failed_text (job_width job) (job_height job)) \<in> set (trace m')"
      using lg data [OF j] by auto
  qed
qed


text \<open>
  The polling loop is what holds \<^verbatim>\<open>Load\<close> back: it returns only once the queue is
  empty, and with workers that never run a task a mip generation with at least one job
  does not return.
\<close>

lemma wait_until_ready_idle_inv:
  assumes "wait_until_ready e h n queue jobs m = Some r"
  shows "(\<forall>n queue. Workers e n queue = []) \<longrightarrow>
   mip_inv e h m0 jobs0 (length jobs0) queue jobs m \<longrightarrow>
   list_all (\<lambda>job. \<not> job_complete job) jobs0 \<longrightarrow> queue = []"
proof (rule wait_until_ready.raw_induct
    [where P = "\<lambda>e h n queue jobs m r.
       (\<forall>n queue. Workers e n queue = []) \<longrightarrow>
       mip_inv e h m0 jobs0 (length jobs0) queue jobs m \<longrightarrow>
       list_all (\<lambda>job. \<not> job_complete job) jobs0 \<longrightarrow> queue = []", OF _ assms])
  fix wait e h n queue jobs m r
  assume IH: "\<And>e h n queue jobs m r. wait e h n queue jobs m = Some r \<Longrightarrow>
       (\<forall>n queue. Workers e n queue = []) \<longrightarrow>
       mip_inv e h m0 jobs0 (length jobs0) queue jobs m \<longrightarrow>
       list_all (\<lambda>job. \<not> job_complete job) jobs0 \<longrightarrow> queue = []"
    and eq: "(case workers_step e h n (queue, jobs, m) of
      (queue1, scalingJobs1, m1) \<Rightarrow>
        if all_complete scalingJobs1 then Some (scalingJobs1, m1)
        else wait e h (Suc n) queue1 scalingJobs1 m1) = Some r"
  show "(\<forall>n queue. Workers e n queue = []) \<longrightarrow>
       mip_inv e h m0 jobs0 (length jobs0) queue jobs m \<longrightarrow>
       list_all (\<lambda>job. \<not> job_complete job) jobs0 \<longrightarrow> queue = []"
  proof (intro impI)
    assume idle: "\<forall>n queue. Workers e n queue = []"
      and inv: "mip_inv e h m0 jobs0 (length jobs0) queue jobs m"
      and new: "list_all (\<lambda>job. \<not> job_complete job) jobs0"
    have same: "queue_rest e n queue = queue"
      using idle by (simp add: queue_rest_def workers_chosen_def)
    obtain jobs1 m1 where
      w: "workers_step e h n (queue, jobs, m) = (queue, jobs1, m1)"
      and inv1: "mip_inv e h m0 jobs0 (length jobs0) queue jobs1 m1"
      using mip_inv_workers_step [OF inv, of n] same by auto
    show "queue = []"
    proof (cases "all_complete jobs1")
      case True
      then show ?thesis using mip_inv_complete [OF inv1 new] by simp
    next
      case False
      then have "wait e h (Suc n) queue jobs1 m1 = Some r"
        using eq w by simp
      then show ?thesis using IH idle inv1 new by blast
    qed
  qed
qed

lemma queue_submit_idle:
  "(\<forall>n queue. Workers e n queue = []) \<Longrightarrow> queue_submit e is n queue = queue @ is"
  by (induction "is" arbitrary: n queue) (simp_all add: queue_rest_def workers_chosen_def)

lemma GenerateMipmaps_idle:
  assumes h: "h \<le> next_handle m"
    and idle: "\<forall>n queue. Workers e n queue = []"
    and jobs: "scalingJobs_loop (sint (tex_width t)) (sint (tex_height t)) [] \<noteq> []"
  shows "GenerateMipmapsFromFIBITMAP e h t m = None"
proof -
  let ?jobs = "scalingJobs_loop (sint (tex_width t)) (sint (tex_height t)) []"
  have fresh: "list_all (\<lambda>job. job_data job = [] \<and> \<not> job_complete job) ?jobs"
    by (rule scalingJobs_loop_fresh) simp
  then have new: "list_all (\<lambda>job. \<not> job_complete job) ?jobs"
    by (auto simp add: list_all_iff)
  obtain queue jobs1 m1 where
    inv: "mip_inv e h m ?jobs (length ?jobs) queue jobs1 m1"
    and q: "queue = queue_submit e [0..<length ?jobs] 0 []"
    and g: "GenerateMipmapsFromFIBITMAP e h t m =
       (case wait_until_ready e h (length ?jobs) queue jobs1 m1 of
          None \<Rightarrow> None
        | Some (jobs2, m2) \<Rightarrow>
            Some (t\<lparr>tex_rgba_mimaps := tex_rgba_mimaps t @ [tex_rgba t] @ map job_data jobs2,
                    tex_rgba := []\<rparr>, m2))"
    using GenerateMipmaps_unfold [OF h, of e t] by blast
  have qne: "queue \<noteq> []"
    using q jobs by (simp add: queue_submit_idle [OF idle])
  have "wait_until_ready e h (length ?jobs) queue jobs1 m1 = None"
  proof (rule ccontr)
    assume "wait_until_ready e h (length ?jobs) queue jobs1 m1 \<noteq> None"
    then obtain r where "wait_until_ready e h (length ?jobs) queue jobs1 m1 = Some r" by blast
    then show False
      using wait_until_ready_idle_inv idle inv new qne by blast
  qed
  then show ?thesis using g by simp
qed

lemma Load_image_eq:
  assumes lb: "Load_bitmaps e p f t m = (bO, sc, bS, b32, t2, m4)"
    and res: "Load_image e p f t m = Some (ok, t', m')"
  shows "ok" "tex_loadState t' = Completed" "tex_bpp t' = 32"
    "tex_channels t' = ComputeChannelCount (deref m4 b32) 32"
    "tex_width t' = FreeImage_GetWidth (deref m4 b32)"
    "tex_height t' = FreeImage_GetHeight (deref m4 b32)"
    "\<exists>evs. trace m' = trace m @ evs @ [StateWrite Completed] \<and> state_writes evs = []"
    "tex_isUsingMipmaps t \<Longrightarrow>
       tex_rgba_mimaps t' = tex_rgba_mimaps t @
         [snd (FIBTIMAPToRGBA (deref m4 b32) (tex_rgba t))] @
         map (\<lambda>job. snd (rescaled e (deref m4 b32) (job_width job) (job_height job) []))
           (scalingJobs_loop (sint (FreeImage_GetWidth (deref m4 b32)))
              (sint (FreeImage_GetHeight (deref m4 b32))) [])"
    "tex_isUsingMipmaps t \<Longrightarrow>
       \<forall>job \<in> set (scalingJobs_loop (sint (FreeImage_GetWidth (deref m4 b32)))
              (sint (FreeImage_GetHeight (deref m4 b32))) []).
         fst (rescaled e (deref m4 b32) (job_width job) (job_height job) []) \<or>
         Logged Info (mip_failed_text (job_width job) (job_height job)) \<in> set (trace m')"
proof -
  note P = Load_bitmaps_props [OF lb]
  define t7 where "t7 = t2\<lparr>tex_isTransparent := FreeImage_IsTransparent (deref m4 b32),
     tex_width := FreeImage_GetWidth (deref m4 b32),
     tex_height := FreeImage_GetHeight (deref m4 b32),
     tex_channels := ComputeChannelCount (deref m4 b32) 32,
     tex_rgba := snd (FIBTIMAPToRGBA (deref m4 b32) (tex_rgba t))\<rparr>"
  have LI: "Load_image e p f t m =
      (case GrayscaleCheck (tex_rgba t7) (sint (tex_width t7)) (sint (tex_height t7)) of
         None \<Rightarrow> None
       | Some gray \<Rightarrow>
           (case (if tex_isUsingMipmaps t
                  then GenerateMipmapsFromFIBITMAP e b32 (t7\<lparr>tex_isGrayscale := gray\<rparr>) m4
                  else Some (t7\<lparr>tex_isGrayscale := gray\<rparr>, m4)) of
              None \<Rightarrow> None
            | Some (t9, m5) \<Rightarrow>
                Some (True, t9\<lparr>tex_loadState := Completed\<rparr>,
                      emit (StateWrite Completed)
                        (if sc
                         then FreeImage_Unload bO
                                (if tex_bpp t9 \<noteq> 32
                                 then FreeImage_Unload bS (FreeImage_Unload b32 m5)
                                 else FreeImage_Unload b32 m5)
                         else if tex_bpp t9 \<noteq> 32
                              then FreeImage_Unload bS (FreeImage_Unload b32 m5)
                              else FreeImage_Unload b32 m5))))"
    by (simp add: Load_image_def Let_def lb t7_def P(5) cong: option.case_cong if_cong)
  from res LI obtain gray where
    g: "GrayscaleCheck (tex_rgba t7) (sint (tex_width t7)) (sint (tex_height t7)) = Some gray"
    by (auto split: option.splits)
  define t8 where "t8 = t7\<lparr>tex_isGrayscale := gray\<rparr>"
  define X where "X = (if tex_isUsingMipmaps t
       then GenerateMipmapsFromFIBITMAP e b32 t8 m4 else Some (t8, m4))"
  have LI': "Load_image e p f t m =
      (case X of
         None \<Rightarrow> None
       | Some (t9, m5) \<Rightarrow>
           Some (True, t9\<lparr>tex_loadState := Completed\<rparr>,
                 emit (StateWrite Completed)
                   (if sc
                    then FreeImage_Unload bO
                           (if tex_bpp t9 \<noteq> 32
                            then FreeImage_Unload bS (FreeImage_Unload b32 m5)
                            else FreeImage_Unload b32 m5)
                    else if tex_bpp t9 \<noteq> 32
                         then FreeImage_Unload bS (FreeImage_Unload b32 m5)
                         else FreeImage_Unload b32 m5)))"
    unfolding LI X_def t8_def using g by simp
  from res LI' obtain t9 m5 where mm0: "X = Some (t9, m5)"
    by (cases X) auto
  have mm: "(if tex_isUsingMipmaps t
          then GenerateMipmapsFromFIBITMAP e b32 t8 m4 else Some (t8, m4)) = Some (t9, m5)"
    using mm0 by (simp add: X_def)
  have fin0: "ok = True" "t' = t9\<lparr>tex_loadState := Completed\<rparr>"
      "m' = emit (StateWrite Completed)
              (if sc
               then FreeImage_Unload bO
                      (if tex_bpp t9 \<noteq> 32
                       then FreeImage_Unload bS (FreeImage_Unload b32 m5)
                       else FreeImage_Unload b32 m5)
               else if tex_bpp t9 \<noteq> 32
                    then FreeImage_Unload bS (FreeImage_Unload b32 m5)
                    else FreeImage_Unload b32 m5)"
    using res unfolding LI' mm0 by simp_all
  define m8 where "m8 = (if sc then FreeImage_Unload bO (FreeImage_Unload b32 m5)
                         else FreeImage_Unload b32 m5)"
  have u8: "tex_isUsingMipmaps t8 = tex_isUsingMipmaps t"
    by (simp add: t8_def t7_def P(5))
  have t9: "tex_bpp t9 = 32" "tex_channels t9 = ComputeChannelCount (deref m4 b32) 32"
    "tex_width t9 = FreeImage_GetWidth (deref m4 b32)"
    "tex_height t9 = FreeImage_GetHeight (deref m4 b32)"
    and st: "stable m4 m5"
    and mips: "tex_isUsingMipmaps t \<Longrightarrow>
       tex_rgba_mimaps t9 = tex_rgba_mimaps t @
         [snd (FIBTIMAPToRGBA (deref m4 b32) (tex_rgba t))] @
         map (\<lambda>job. snd (rescaled e (deref m4 b32) (job_width job) (job_height job) []))
           (scalingJobs_loop (sint (FreeImage_GetWidth (deref m4 b32)))
              (sint (FreeImage_GetHeight (deref m4 b32))) [])"
    and logs: "tex_isUsingMipmaps t \<Longrightarrow>
       \<forall>job \<in> set (scalingJobs_loop (sint (FreeImage_GetWidth (deref m4 b32)))
              (sint (FreeImage_GetHeight (deref m4 b32))) []).
         fst (rescaled e (deref m4 b32) (job_width job) (job_height job) []) \<or>
         Logged Info (mip_failed_text (job_width job) (job_height job)) \<in> set (trace m5)"
  proof -
    have gm: "GenerateMipmapsFromFIBITMAP e b32 t8 m4 = Some (t9, m5)"
      if "tex_isUsingMipmaps t" using mm that by simp
    have nm: "t9 = t8 \<and> m5 = m4" if "\<not> tex_isUsingMipmaps t" using mm that by simp
    have "tex_bpp t9 = 32 \<and> tex_channels t9 = ComputeChannelCount (deref m4 b32) 32 \<and>
      tex_width t9 = FreeImage_GetWidth (deref m4 b32) \<and>
      tex_height t9 = FreeImage_GetHeight (deref m4 b32) \<and> stable m4 m5"
    proof (cases "tex_isUsingMipmaps t")
      case True
      show ?thesis
        using GenerateMipmaps_Some(1,2) [OF P(2) gm [OF True]]
        by (simp add: t8_def t7_def P(5))
    next
      case False
      show ?thesis
        using nm [OF False] by (simp add: t8_def t7_def P(5))
    qed
    then show "tex_bpp t9 = 32" "tex_channels t9 = ComputeChannelCount (deref m4 b32) 32"
      "tex_width t9 = FreeImage_GetWidth (deref m4 b32)"
      "tex_height t9 = FreeImage_GetHeight (deref m4 b32)" "stable m4 m5"
      by simp_all
    assume u: "tex_isUsingMipmaps t"
    show "tex_rgba_mimaps t9 = tex_rgba_mimaps t @
         [snd (FIBTIMAPToRGBA (deref m4 b32) (tex_rgba t))] @
         map (\<lambda>job. snd (rescaled e (deref m4 b32) (job_width job) (job_height job) []))
           (scalingJobs_loop (sint (FreeImage_GetWidth (deref m4 b32)))
              (sint (FreeImage_GetHeight (deref m4 b32))) [])"
      using GenerateMipmaps_Some(1) [OF P(2) gm [OF u]]
      by (simp add: t8_def t7_def P(5))
    show "\<forall>job \<in> set (scalingJobs_loop (sint (FreeImage_GetWidth (deref m4 b32)))
              (sint (FreeImage_GetHeight (deref m4 b32))) []).
         fst (rescaled e (deref m4 b32) (job_width job) (job_height job) []) \<or>
         Logged Info (mip_failed_text (job_width job) (job_height job)) \<in> set (trace m5)"
      using GenerateMipmaps_Some(3) [OF P(2) gm [OF u]]
      by (simp add: t8_def t7_def P(5))
  qed
  have fin: "ok = True" "t' = t9\<lparr>tex_loadState := Completed\<rparr>"
    "m' = emit (StateWrite Completed) m8"
    using fin0 t9(1) by (simp_all add: m8_def)
  have q58: "quiet m5 m8"
    unfolding m8_def by (auto intro: quiet_trans quiet_Unload)
  have q: "quiet m m8"
    using P(1) st q58 by (auto simp add: grows_def stable_def intro: quiet_trans)
  show "ok" using fin by simp
  show "tex_loadState t' = Completed" using fin by simp
  show "tex_bpp t' = 32" using fin t9 by simp
  show "tex_channels t' = ComputeChannelCount (deref m4 b32) 32" using fin t9 by simp
  show "tex_width t' = FreeImage_GetWidth (deref m4 b32)" using fin t9 by simp
  show "tex_height t' = FreeImage_GetHeight (deref m4 b32)" using fin t9 by simp
  show "\<exists>evs. trace m' = trace m @ evs @ [StateWrite Completed] \<and> state_writes evs = []"
    using q fin by (auto simp add: quiet_def)
  show "tex_rgba_mimaps t' = tex_rgba_mimaps t @
         [snd (FIBTIMAPToRGBA (deref m4 b32) (tex_rgba t))] @
         map (\<lambda>job. snd (rescaled e (deref m4 b32) (job_width job) (job_height job) []))
           (scalingJobs_loop (sint (FreeImage_GetWidth (deref m4 b32)))
              (sint (FreeImage_GetHeight (deref m4 b32))) [])" if "tex_isUsingMipmaps t"
    using mips [OF that] fin by simp
  show "\<forall>job \<in> set (scalingJobs_loop (sint (FreeImage_GetWidth (deref m4 b32)))
              (sint (FreeImage_GetHeight (deref m4 b32))) []).
         fst (rescaled e (deref m4 b32) (job_width job) (job_height job) []) \<or>
         Logged Info (mip_failed_text (job_width job) (job_height job)) \<in> set (trace m')"
    if "tex_isUsingMipmaps t"
    using logs [OF that] quiet_set [OF q58] fin by auto
qed

subsection \<open>The mip chain\<close>

lemma scalingJobs_loop_step:
  "1 < width \<Longrightarrow> 1 < height \<Longrightarrow>
   scalingJobs_loop width height jobs =
     scalingJobs_loop (max (width div 2) 1) (max (height div 2) 1)
       (jobs @ [new_scalingProcess (max (width div 2) 1) (max (height div 2) 1) False])"
  by (simp add: scalingJobs_loop.simps [of width height jobs] Let_def)

lemma scalingJobs_loop_stop:
  "\<not> (1 < width \<and> 1 < height) \<Longrightarrow> scalingJobs_loop width height jobs = jobs"
  by (auto simp add: scalingJobs_loop.simps [of width height jobs])

text \<open>
  C1 (the code at the claim's own example). For a 513x300 base the loop of
  \<^verbatim>\<open>GenerateMipmapsFromFIBITMAP\<close> stops as soon as one dimension has reached 1: the chain
  has 9 levels and ends at 2x1, not the 10 levels ending at 1x1 of the claim.
\<close>

theorem mip_chain_513x300_ends_at_2x1:
  "mip_dims 513 300 =
     [(513, 300), (256, 150), (128, 75), (64, 37), (32, 18), (16, 9), (8, 4), (4, 2), (2, 1)]
   \<and> length (mip_dims 513 300) = 9
   \<and> last (mip_dims 513 300) \<noteq> (1, 1)"
  by (simp add: mip_dims_def scalingJobs_loop_step scalingJobs_loop_stop new_scalingProcess_def)

subsection \<open>The paths of \<^verbatim>\<open>Load\<close>\<close>

lemma Validate_fst:
  "fst (ValidateFilePath e p m) = (p \<noteq> [] \<and> p \<noteq> NOT_ASSIGNED e \<and> FileExists e p)"
  by (simp add: ValidateFilePath_def Let_def)

lemma Load_format_fst:
  "fst (Load_format e p m) =
     (if GetFileType e p = FIF_UNKNOWN
      then (if \<not> FIFSupportsReading e (GetFIFFromFilename e p) \<or>
               GetFIFFromFilename e p = FIF_UNKNOWN
            then None else Some (GetFIFFromFilename e p))
      else Some (GetFileType e p))"
  by (simp add: Load_format_def Let_def FIF_UNKNOWN_def)

lemma decode_format_eq:
  "decode_format e p =
     (if p \<noteq> [] \<and> p \<noteq> NOT_ASSIGNED e \<and> FileExists e p \<and> \<not> IsEngineTextureFile e p
      then fst (Load_format e p machine0) else None)"
  by (simp add: decode_format_def Validate_fst)

lemma Load_decode:
  assumes "decode_format e p = Some f"
  shows "Load e p t m = Load_image e p f (t\<lparr>tex_loadState := Loading\<rparr>) (decode_entry e p m)"
proof -
  have v: "fst (ValidateFilePath e p (emit (StateWrite Loading) m))" "\<not> IsEngineTextureFile e p"
    using assms by (auto simp add: decode_format_def Validate_fst split: if_splits)
  have "fst (Load_format e p machine0) = Some f"
    using assms by (simp add: decode_format_def split: if_splits)
  then have f: "fst (Load_format e p (snd (ValidateFilePath e p (emit (StateWrite Loading) m))))
      = Some f"
    by (simp add: Load_format_fst)
  show ?thesis
    using v f unfolding Load_def Let_def decode_entry_def
    by (simp add: split_beta)
qed

lemma Load_no_decode:
  assumes "decode_format e p = None" "\<not> IsEngineTextureFile e p"
  shows "\<exists>m'. Load e p t m = Some (False, t\<lparr>tex_loadState := Failed\<rparr>, emit (StateWrite Failed) m')
     \<and> quiet (emit (StateWrite Loading) m) m'"
proof (cases "fst (ValidateFilePath e p (emit (StateWrite Loading) m))")
  case False
  then show ?thesis
    using quiet_Validate [of "emit (StateWrite Loading) m" e p]
    unfolding Load_def Let_def by (auto simp add: split_beta)
next
  case True
  then have "fst (Load_format e p machine0) = None"
    using assms by (simp add: decode_format_def Validate_fst)
  then have f: "fst (Load_format e p (snd (ValidateFilePath e p (emit (StateWrite Loading) m))))
      = None"
    by (simp add: Load_format_fst)
  have "quiet (emit (StateWrite Loading) m)
     (snd (Load_format e p (snd (ValidateFilePath e p (emit (StateWrite Loading) m)))))"
    by (rule quiet_trans [OF quiet_Validate quiet_Load_format])
  then show ?thesis
    using True f assms(2) unfolding Load_def Let_def by (auto simp add: split_beta)
qed

lemma Load_engine:
  assumes "fst (ValidateFilePath e p (emit (StateWrite Loading) m))" "IsEngineTextureFile e p"
  shows "\<exists>ok t' m'. Load e p t m =
       Some (ok, t'\<lparr>tex_loadState := (if ok then Completed else Failed)\<rparr>,
             emit (StateWrite (if ok then Completed else Failed)) m')
     \<and> quiet (emit (StateWrite Loading) m) m'"
proof -
  have "quiet (emit (StateWrite Loading) m)
     (snd (snd (LoadEngineTexture e p (t\<lparr>tex_loadState := Loading\<rparr>)
        (snd (ValidateFilePath e p (emit (StateWrite Loading) m))))))"
    by (rule quiet_trans [OF quiet_Validate quiet_LoadEngineTexture])
  then show ?thesis
    using assms unfolding Load_def Let_def
    by (auto simp add: split_beta)
qed

lemma decode_entry_quiet: "quiet (emit (StateWrite Loading) m) (decode_entry e p m)"
  unfolding decode_entry_def by (rule quiet_trans [OF quiet_Validate quiet_Load_format])

lemma quiet_after_Loading:
  "quiet (emit (StateWrite Loading) m) m' \<Longrightarrow>
   \<exists>evs. trace m' = trace m @ StateWrite Loading # evs \<and> state_writes evs = []"
  by (auto simp add: quiet_def)

lemmas example_defs = example_env_def example_texInfo_def example_rescale_def example_bitmap_def
  machine0_def Load_def Load_image_def Load_bitmaps_def Load_format_def ValidateFilePath_def
  FreeImage_Load_def FreeImage_FlipVertical_def FreeImage_Rescale_def
  FreeImage_ConvertTo32Bits_def FreeImage_Unload_def alloc_def emit_def deref_def NULL_def
  LOG_WARNING_def LOG_INFO_def FreeImage_GetWidth_def FreeImage_GetHeight_def
  FreeImage_GetBPP_def FreeImage_GetLine_def FreeImage_GetImageType_def
  FreeImage_IsTransparent_def FreeImage_GetScanLine_def ComputeChannelCount_def
  FIF_UNKNOWN_def Let_def FIBTIMAPToRGBA_eq spec_extract_def spec_pixel_def upt_rec
  GrayscaleCheck_def gray_rows.simps gray_cols.simps pixel_is_gray_def vec_at_def int_ok_def
  INT_MAX_def

text \<open>
  C6. Whenever \<^verbatim>\<open>Load\<close> returns, the first thing it did was to write \<open>Loading\<close> to
  \<open>loadState\<close> (before the path check, the format probe or any bitmap), the last thing
  it did was to write the terminal state, there is no write of \<open>loadState\<close> in between,
  and the terminal state is \<open>Completed\<close> when it returns true and \<open>Failed\<close> when it
  returns false.
\<close>

theorem Load_loadState_protocol:
  assumes "Load e filePath texInfo m = Some (ok, texInfo', m')"
  shows "\<exists>evs. trace m' = trace m @ StateWrite Loading # evs @ [StateWrite (tex_loadState texInfo')]
            \<and> state_writes evs = []
            \<and> tex_loadState texInfo' = (if ok then Completed else Failed)"
proof (cases "decode_format e filePath")
  case (Some f)
  obtain bO sc bS b32 t2 m4 where lb:
    "Load_bitmaps e filePath f (texInfo\<lparr>tex_loadState := Loading\<rparr>) (decode_entry e filePath m)
       = (bO, sc, bS, b32, t2, m4)"
    by (metis prod_cases6)
  have li: "Load_image e filePath f (texInfo\<lparr>tex_loadState := Loading\<rparr>)
      (decode_entry e filePath m) = Some (ok, texInfo', m')"
    using assms Load_decode [OF Some] by simp
  note R = Load_image_eq [OF lb li]
  obtain evs1 where 1: "trace (decode_entry e filePath m) = trace m @ StateWrite Loading # evs1"
    "state_writes evs1 = []"
    using quiet_after_Loading [OF decode_entry_quiet] by blast
  obtain evs2 where 2: "trace m' = trace (decode_entry e filePath m) @ evs2 @ [StateWrite Completed]"
    "state_writes evs2 = []"
    using R(7) by blast
  have "trace m' = trace m @ StateWrite Loading # (evs1 @ evs2) @ [StateWrite (tex_loadState texInfo')]"
    using 1 2 R(2) by simp
  moreover have "state_writes (evs1 @ evs2) = []" using 1 2 by simp
  moreover have "tex_loadState texInfo' = (if ok then Completed else Failed)"
    using R(1,2) by simp
  ultimately show ?thesis by blast
next
  case None
  show ?thesis
  proof (cases "IsEngineTextureFile e filePath")
    case False
    obtain m1 where r: "Load e filePath texInfo m =
        Some (False, texInfo\<lparr>tex_loadState := Failed\<rparr>, emit (StateWrite Failed) m1)"
      and q: "quiet (emit (StateWrite Loading) m) m1"
      using Load_no_decode [OF None False] by blast
    obtain evs where "trace m1 = trace m @ StateWrite Loading # evs" "state_writes evs = []"
      using quiet_after_Loading [OF q] by blast
    then show ?thesis using r assms by auto
  next
    case True
    show ?thesis
    proof (cases "fst (ValidateFilePath e filePath (emit (StateWrite Loading) m))")
      case v: True
      obtain ok1 t1 m1 where r: "Load e filePath texInfo m =
         Some (ok1, t1\<lparr>tex_loadState := (if ok1 then Completed else Failed)\<rparr>,
             emit (StateWrite (if ok1 then Completed else Failed)) m1)"
        and q: "quiet (emit (StateWrite Loading) m) m1"
        using Load_engine [OF v True] by blast
      obtain evs where "trace m1 = trace m @ StateWrite Loading # evs" "state_writes evs = []"
        using quiet_after_Loading [OF q] by blast
      then show ?thesis using r assms by auto
    next
      case v: False
      have q: "quiet (emit (StateWrite Loading) m)
          (snd (ValidateFilePath e filePath (emit (StateWrite Loading) m)))"
        by (rule quiet_Validate)
      obtain evs where "trace (snd (ValidateFilePath e filePath (emit (StateWrite Loading) m)))
           = trace m @ StateWrite Loading # evs" "state_writes evs = []"
        using quiet_after_Loading [OF q] by blast
      then show ?thesis
        using assms v unfolding Load_def Let_def by (auto simp add: split_beta)
    qed
  qed
qed

theorem Load_loadState_protocol_witness:
  "\<exists>ok texInfo' m'.
     Load (example_env (Some (example_bitmap 1 1 32))) ''a.png'' (example_texInfo 0 0 False)
       machine0 = Some (ok, texInfo', m') \<and>
     (\<exists>evs. trace m' = trace machine0 @ StateWrite Loading # evs @
                [StateWrite (tex_loadState texInfo')]
            \<and> state_writes evs = []
            \<and> tex_loadState texInfo' = (if ok then Completed else Failed))"
proof -
  have "Load (example_env (Some (example_bitmap 1 1 32))) ''a.png''
          (example_texInfo 0 0 False) machine0 \<noteq> None"
    by (simp add: example_defs)
  then obtain ok texInfo' m' where
    r: "Load (example_env (Some (example_bitmap 1 1 32))) ''a.png''
          (example_texInfo 0 0 False) machine0 = Some (ok, texInfo', m')"
    by (metis not_None_eq prod_cases3)
  show ?thesis
    using r Load_loadState_protocol [OF r] by blast
qed

text \<open>
  C3 (as amended). For a valid path that is no engine texture, \<^verbatim>\<open>Load\<close> fails (false,
  \<open>Failed\<close>) when the content probe returns Unknown and the format looked up from the
  extension does not support reading or is itself Unknown. A format found by the content
  probe is not checked for reading support: with it \<^verbatim>\<open>Load\<close> goes on to decode and,
  whenever it returns, returns true with \<open>Completed\<close>.
\<close>

theorem Load_fails_iff_fallback_unreadable:
  assumes "filePath \<noteq> []" "filePath \<noteq> NOT_ASSIGNED e" "FileExists e filePath"
    "\<not> IsEngineTextureFile e filePath"
  shows "(GetFileType e filePath = FIF_UNKNOWN \<and>
          (\<not> FIFSupportsReading e (GetFIFFromFilename e filePath) \<or>
           GetFIFFromFilename e filePath = FIF_UNKNOWN) \<longrightarrow>
            (\<exists>m'. Load e filePath texInfo m =
                     Some (False, texInfo\<lparr>tex_loadState := Failed\<rparr>, m')))
       \<and> (GetFileType e filePath \<noteq> FIF_UNKNOWN \<longrightarrow>
            (\<forall>ok texInfo' m'. Load e filePath texInfo m = Some (ok, texInfo', m') \<longrightarrow>
               ok \<and> tex_loadState texInfo' = Completed))"
proof -
  have A: "\<exists>m'. Load e filePath texInfo m =
                     Some (False, texInfo\<lparr>tex_loadState := Failed\<rparr>, m')"
    if "GetFileType e filePath = FIF_UNKNOWN \<and>
          (\<not> FIFSupportsReading e (GetFIFFromFilename e filePath) \<or>
           GetFIFFromFilename e filePath = FIF_UNKNOWN)"
  proof -
    have "decode_format e filePath = None"
      using assms that by (auto simp add: decode_format_eq Load_format_fst)
    then show ?thesis
      using Load_no_decode [of e filePath texInfo m, OF _ assms(4)] by blast
  qed
  have B: "ok \<and> tex_loadState texInfo' = Completed"
    if known: "GetFileType e filePath \<noteq> FIF_UNKNOWN"
      and r: "Load e filePath texInfo m = Some (ok, texInfo', m')" for ok texInfo' m'
  proof -
    have df: "decode_format e filePath = Some (GetFileType e filePath)"
      using assms known by (simp add: decode_format_eq Load_format_fst)
    obtain bO sc bS b32 t2 m4 where lb:
      "Load_bitmaps e filePath (GetFileType e filePath) (texInfo\<lparr>tex_loadState := Loading\<rparr>)
         (decode_entry e filePath m) = (bO, sc, bS, b32, t2, m4)"
      by (metis prod_cases6)
    have li: "Load_image e filePath (GetFileType e filePath)
        (texInfo\<lparr>tex_loadState := Loading\<rparr>) (decode_entry e filePath m)
        = Some (ok, texInfo', m')"
      using r Load_decode [OF df] by simp
    show ?thesis
      using Load_image_eq(1,2) [OF lb li] by simp
  qed
  show ?thesis using A B by blast
qed

theorem Load_fails_iff_fallback_unreadable_witness:
  "''a.xyz'' \<noteq> [] \<and> ''a.xyz'' \<noteq> NOT_ASSIGNED example_env_unreadable_extension
   \<and> FileExists example_env_unreadable_extension ''a.xyz''
   \<and> \<not> IsEngineTextureFile example_env_unreadable_extension ''a.xyz''
   \<and> GetFileType example_env_unreadable_extension ''a.xyz'' = FIF_UNKNOWN
   \<and> \<not> FIFSupportsReading example_env_unreadable_extension
          (GetFIFFromFilename example_env_unreadable_extension ''a.xyz'')
   \<and> (\<exists>m'. Load example_env_unreadable_extension ''a.xyz'' (example_texInfo 0 0 False) machine0 =
              Some (False, (example_texInfo 0 0 False)\<lparr>tex_loadState := Failed\<rparr>, m'))"
proof -
  have h: "''a.xyz'' \<noteq> []" "''a.xyz'' \<noteq> NOT_ASSIGNED example_env_unreadable_extension"
    "FileExists example_env_unreadable_extension ''a.xyz''"
    "\<not> IsEngineTextureFile example_env_unreadable_extension ''a.xyz''"
    by (simp_all add: example_env_unreadable_extension_def example_env_def)
  have g: "GetFileType example_env_unreadable_extension ''a.xyz'' = FIF_UNKNOWN"
    "\<not> FIFSupportsReading example_env_unreadable_extension
          (GetFIFFromFilename example_env_unreadable_extension ''a.xyz'')"
    by (simp_all add: example_env_unreadable_extension_def example_env_def)
  show ?thesis
    using Load_fails_iff_fallback_unreadable [OF h, of "example_texInfo 0 0 False" machine0] h g
    by simp
qed

text \<open>
  C3 as stated fails: the content probe names format 5, which does not support reading,
  and \<^verbatim>\<open>Load\<close> returns true with \<open>Completed\<close>.
\<close>

theorem Load_succeeds_on_unreadable_content_format:
  "GetFileType example_env_unreadable_content ''a.bin'' \<noteq> FIF_UNKNOWN
   \<and> \<not> FIFSupportsReading example_env_unreadable_content
          (GetFileType example_env_unreadable_content ''a.bin'')
   \<and> map_option (\<lambda>(ok, texInfo, m). (ok, tex_loadState texInfo))
        (Load example_env_unreadable_content ''a.bin'' (example_texInfo 0 0 False) machine0)
       = Some (True, Completed)"
  by (simp add: example_env_unreadable_content_def example_defs)

subsection \<open>What \<^verbatim>\<open>Load\<close> leaves in the texture\<close>

lemma ComputeChannelCount_32:
  "ComputeChannelCount dib 32 = (if FreeImage_GetImageType dib = FIT_BITMAP then 4 else 0)"
  by (simp add: ComputeChannelCount_def)

text \<open>
  C5 (as amended). \<^verbatim>\<open>ComputeChannelCount\<close> maps the depths 8, 24 and 32 to 1, 3 and 4,
  any other depth to 0, and any image that is not a standard bitmap to 0. \<^verbatim>\<open>Load\<close>
  overwrites \<open>bpp\<close> with 32 before it calls it, on the converted bitmap: after a load
  through the decoder \<open>bpp\<close> is 32 and the channel count is 4 when the final bitmap is
  a standard bitmap and 0 otherwise, whatever the depth of the source.
\<close>

theorem Load_channelCount_is_of_32bpp:
  assumes "decode_format e filePath = Some format"
    and "Load_bitmaps e filePath format (texInfo\<lparr>tex_loadState := Loading\<rparr>)
           (decode_entry e filePath m)
         = (bitmapOriginal, scale, bitmapScaled, bitmap32, texInfo2, m4)"
    and "Load e filePath texInfo m = Some (ok, texInfo', m')"
  shows "ComputeChannelCount fibtimap bpp =
           (if FreeImage_GetImageType fibtimap \<noteq> FIT_BITMAP then 0
            else if bpp = 8 then 1 else if bpp = 24 then 3 else if bpp = 32 then 4 else 0)
       \<and> tex_bpp texInfo' = 32
       \<and> tex_channels texInfo' =
           (if FreeImage_GetImageType (deref m4 bitmap32) = FIT_BITMAP then 4 else 0)"
proof -
  have li: "Load_image e filePath format (texInfo\<lparr>tex_loadState := Loading\<rparr>)
      (decode_entry e filePath m) = Some (ok, texInfo', m')"
    using assms(3) Load_decode [OF assms(1)] by simp
  show ?thesis
    using Load_image_eq(3,4) [OF assms(2) li]
    by (simp add: ComputeChannelCount_32) (simp add: ComputeChannelCount_def)
qed

theorem Load_channelCount_is_of_32bpp_witness:
  "\<exists>bitmapOriginal scale bitmapScaled bitmap32 texInfo2 m4 ok texInfo' m'.
     decode_format (example_env (Some (example_bitmap 1 1 24))) ''a.png'' = Some 0 \<and>
     Load_bitmaps (example_env (Some (example_bitmap 1 1 24))) ''a.png'' 0
       ((example_texInfo 0 0 False)\<lparr>tex_loadState := Loading\<rparr>)
       (decode_entry (example_env (Some (example_bitmap 1 1 24))) ''a.png'' machine0)
       = (bitmapOriginal, scale, bitmapScaled, bitmap32, texInfo2, m4) \<and>
     Load (example_env (Some (example_bitmap 1 1 24))) ''a.png'' (example_texInfo 0 0 False)
       machine0 = Some (ok, texInfo', m') \<and>
     FreeImage_GetBPP (deref m4 bitmapOriginal) = 24 \<and>
     tex_bpp texInfo' = 32 \<and> tex_channels texInfo' = 4"
proof -
  let ?e = "example_env (Some (example_bitmap 1 1 24))"
  have df: "decode_format ?e ''a.png'' = Some 0"
    by (simp add: decode_format_eq Load_format_fst example_env_def FIF_UNKNOWN_def)
  obtain bO sc bS b32 t2 m4 where lb:
    "Load_bitmaps ?e ''a.png'' 0 ((example_texInfo 0 0 False)\<lparr>tex_loadState := Loading\<rparr>)
       (decode_entry ?e ''a.png'' machine0) = (bO, sc, bS, b32, t2, m4)"
    by (metis prod_cases6)
  have "Load ?e ''a.png'' (example_texInfo 0 0 False) machine0 \<noteq> None"
    by (simp add: example_defs)
  then obtain ok t' m' where
    r: "Load ?e ''a.png'' (example_texInfo 0 0 False) machine0 = Some (ok, t', m')"
    by (metis not_None_eq prod_cases3)
  have v: "FreeImage_GetBPP (deref m4 bO) = 24 \<and>
           FreeImage_GetImageType (deref m4 b32) = FIT_BITMAP"
    using lb by (simp add: decode_entry_def example_defs) auto
  show ?thesis
    using Load_channelCount_is_of_32bpp [OF df lb r] df lb r v by auto
qed

text \<open>
  C5 as stated fails: a source decoded at 8 bits per pixel ends with 4 channels, not 1.
\<close>

theorem Load_8bpp_source_has_4_channels:
  "FreeImage_GetBPP (Decode (example_env (Some (example_bitmap 1 1 8))) 0 ''a.png'') = 8
   \<and> map_option (\<lambda>(ok, texInfo, m). (ok, tex_channels texInfo))
        (Load (example_env (Some (example_bitmap 1 1 8))) ''a.png'' (example_texInfo 0 0 False)
           machine0)
       = Some (True, 4)"
  by (simp add: example_defs)

subsection \<open>The bitmaps \<^verbatim>\<open>Load\<close> releases\<close>

text \<open>
  C2 (the code at a failing input). A 24-bpp source is converted, so the handle before
  the conversion differs from the final one and has to be released. \<open>bpp\<close> was
  overwritten with 32 at line 127, so the test of line 151 never holds: with no
  requested size the decoded bitmap (handle 1) is never unloaded and is still in the
  store when \<^verbatim>\<open>Load\<close> returns; with a requested size of 2x2 the scaled bitmap
  (handle 2) is the one left behind.
\<close>

theorem Load_never_unloads_converted_source:
  "map_option (\<lambda>(ok, texInfo, m). (ok, trace m, deref m 1 \<noteq> None))
     (Load (example_env (Some (example_bitmap 1 1 24))) ''a.png'' (example_texInfo 0 0 False)
        machine0)
   = Some (True,
           [StateWrite Loading, PathChecked, FormatProbed, Created 1, Created 2, Unloaded 2,
            StateWrite Completed],
           True)
   \<and> map_option (\<lambda>(ok, texInfo, m). (ok, trace m, deref m 2 \<noteq> None))
     (Load (example_env (Some (example_bitmap 1 1 24))) ''a.png'' (example_texInfo 2 2 False)
        machine0)
   = Some (True,
           [StateWrite Loading, PathChecked, FormatProbed, Created 1, Created 2, Created 3,
            Unloaded 3, Unloaded 1, StateWrite Completed],
           True)"
  by (simp add: example_defs)

text \<open>
  C4 (the code at a failing input). A 2x2 image is loaded with a requested size of 1x2:
  the width differs from the native one, the height does not. \<open>dimensionMismatch\<close>
  asks for both to differ, no bitmap is created by a rescale, and the texture stays 2x2.
\<close>

theorem Load_skips_rescale_when_one_dimension_matches:
  "FreeImage_GetWidth (Decode (example_env (Some (example_bitmap 2 2 32))) 0 ''a.png'') = 2
   \<and> FreeImage_GetHeight (Decode (example_env (Some (example_bitmap 2 2 32))) 0 ''a.png'') = 2
   \<and> map_option (\<lambda>(ok, texInfo, m). (ok, tex_width texInfo, tex_height texInfo, trace m))
       (Load (example_env (Some (example_bitmap 2 2 32))) ''a.png'' (example_texInfo 1 2 False)
          machine0)
     = Some (True, 2, 2,
             [StateWrite Loading, PathChecked, FormatProbed, Created 1, Unloaded 1,
              StateWrite Completed])"
  by (simp add: example_defs)

subsection \<open>Mip levels that fail\<close>







end
